theory Spec2Isabelle
  imports Main "HOL-Library.Word" "HOL-Library.Char_ord" "HOL-Library.Multiset"
begin

unbundle bit_operations_syntax

section \<open>Constants and protocol definitions\<close>

type_synonym byte = "8 word"

text \<open>
  \<^verbatim>\<open>enum MsgType : uint8_t\<close>: the tag is one byte on the wire and \<^verbatim>\<open>recv_msg\<close> casts
  whatever byte arrives, so the type of tags is the type of bytes.
\<close>

type_synonym MsgType = "8 word"

definition MSG_DATA :: MsgType where "MSG_DATA = 0x01"
definition MSG_WINCH :: MsgType where "MSG_WINCH = 0x02"
definition MSG_DETACH :: MsgType where "MSG_DETACH = 0x03"
definition MSG_EXIT :: MsgType where "MSG_EXIT = 0x04"
definition MSG_HELLO :: MsgType where "MSG_HELLO = 0x05"

definition DETACH_KEY :: byte where "DETACH_KEY = 0x1C"
definition MAX_CLIENTS :: int where "MAX_CLIENTS = 16"
definition BUF_SIZE :: nat where "BUF_SIZE = 8192"
definition MAX_NAME_LEN :: nat where "MAX_NAME_LEN = 64"
definition CLIENT_RECV_TIMEOUT :: int where "CLIENT_RECV_TIMEOUT = 30"

section \<open>Session names\<close>

text \<open>
  The body of the range-for loop of \<^verbatim>\<open>valid_session_name\<close>: each character either
  matches one of the four tests and the loop goes on, or the function returns false.
\<close>

fun name_chars_ok :: "string \<Rightarrow> bool" where
  "name_chars_ok [] = True"
| "name_chars_ok (c # cs) =
     (if CHR ''a'' \<le> c \<and> c \<le> CHR ''z'' then name_chars_ok cs
      else if CHR ''A'' \<le> c \<and> c \<le> CHR ''Z'' then name_chars_ok cs
      else if CHR ''0'' \<le> c \<and> c \<le> CHR ''9'' then name_chars_ok cs
      else if c = CHR ''-'' \<or> c = CHR ''_'' \<or> c = CHR ''.'' then name_chars_ok cs
      else False)"

definition valid_session_name :: "string \<Rightarrow> bool" where
  "valid_session_name nm =
     (if nm = [] \<or> length nm > MAX_NAME_LEN then False
      else if nm = ''.'' \<or> nm = ''..'' then False
      else name_chars_ok nm)"

text \<open>The character class \<^verbatim>\<open>[A-Za-z0-9._-]\<close> and the validity of a name, in the words of the
  specification.\<close>

definition spec_name_class :: "char set" where
  "spec_name_class =
     {CHR ''A'' .. CHR ''Z''} \<union> {CHR ''a'' .. CHR ''z''} \<union> {CHR ''0'' .. CHR ''9''}
       \<union> {CHR ''.'', CHR ''_'', CHR ''-''}"

definition spec_valid_name :: "string \<Rightarrow> bool" where
  "spec_valid_name nm \<longleftrightarrow>
     1 \<le> length nm \<and> length nm \<le> 64 \<and> set nm \<subseteq> spec_name_class \<and> nm \<noteq> ''.'' \<and> nm \<noteq> ''..''"

section \<open>Descriptors\<close>

text \<open>
  A descriptor is modelled by what the kernel will answer on it. The answers to
  \<^verbatim>\<open>read\<close> form a list: a chunk of bytes that has arrived, an interruption by a signal
  (\<^verbatim>\<open>EINTR\<close>), a timeout or an empty non-blocking descriptor (\<^verbatim>\<open>EAGAIN\<close>), or another
  error; after the last answer the peer has closed the stream and \<^verbatim>\<open>read\<close> returns 0.
  The answers to \<^verbatim>\<open>write\<close> form a list too: the number of bytes the kernel is ready to
  take, \<^verbatim>\<open>EINTR\<close>, \<^verbatim>\<open>EAGAIN\<close> together with what the following \<^verbatim>\<open>poll\<close> returns, or
  another error; after the last answer the peer is gone and every \<^verbatim>\<open>write\<close> fails. The
  lists are finite, so the loops of \<^verbatim>\<open>read_all\<close> and \<^verbatim>\<open>write_all\<close> end; a descriptor that
  is interrupted for ever is outside this model.
\<close>

datatype rd_ev = Chunk "byte list" | REintr | RAgain | RErr

datatype wr_ev = Wrote nat | WEintr | WAgain int | WErr

record conn =
  rd :: "rd_ev list"
  wr :: "wr_ev list"
  out :: "byte list"

text \<open>
  \<^verbatim>\<open>write_all\<close>: returns whether all bytes were written, the bytes that were written, and
  the answers that are left.
\<close>

fun write_all :: "wr_ev list \<Rightarrow> byte list \<Rightarrow> bool \<times> byte list \<times> wr_ev list" where
  "write_all s [] = (True, [], s)"
| "write_all [] (b # bs) = (False, [], [])"
| "write_all (Wrote n # s) (b # bs) =
     (let k = min n (length (b # bs));
          (ok, w, s') = write_all s (drop k (b # bs))
      in (ok, take k (b # bs) @ w, s'))"
| "write_all (WEintr # s) (b # bs) = write_all s (b # bs)"
| "write_all (WAgain r # s) (b # bs) = (if r \<le> 0 then (False, [], s) else write_all s (b # bs))"
| "write_all (WErr # s) (b # bs) = (False, [], s)"

text \<open>
  \<^verbatim>\<open>read_all\<close>: the bytes read (\<open>None\<close> where the source returns false) and the
  answers that are left. A chunk longer than the request is split: \<^verbatim>\<open>read\<close> returns at
  most the number of bytes asked for and the rest stays in the kernel. A chunk of no
  bytes is a \<^verbatim>\<open>read\<close> that returns 0.
\<close>

fun read_all :: "rd_ev list \<Rightarrow> nat \<Rightarrow> byte list option \<times> rd_ev list" where
  "read_all s 0 = (Some [], s)"
| "read_all [] (Suc n) = (None, [])"
| "read_all (Chunk bs # s) (Suc n) =
     (if bs = [] then (None, s)
      else if length bs \<le> Suc n then
        (case read_all s (Suc n - length bs) of
           (None, s') \<Rightarrow> (None, s')
         | (Some r, s') \<Rightarrow> (Some (bs @ r), s'))
      else (Some (take (Suc n) bs), Chunk (drop (Suc n) bs) # s))"
| "read_all (REintr # s) (Suc n) = read_all s (Suc n)"
| "read_all (RAgain # s) (Suc n) = (None, s)"
| "read_all (RErr # s) (Suc n) = (None, s)"

definition conn_write_all :: "conn \<Rightarrow> byte list \<Rightarrow> bool \<times> conn" where
  "conn_write_all c bs =
     (let (ok, w, s') = write_all (wr c) bs in (ok, c\<lparr>wr := s', out := out c @ w\<rparr>))"

section \<open>Protocol framing\<close>

definition msg_header :: "MsgType \<Rightarrow> 32 word \<Rightarrow> byte list" where
  "msg_header type len =
     [type,
      ucast (drop_bit 24 len AND 0xFF),
      ucast (drop_bit 16 len AND 0xFF),
      ucast (drop_bit 8 len AND 0xFF),
      ucast (len AND 0xFF)]"

text \<open>
  \<^verbatim>\<open>send_msg\<close> on a connection. The source reads \<^verbatim>\<open>len\<close> bytes at \<^verbatim>\<open>data\<close>; every caller
  passes a buffer that holds at least that many.
\<close>

definition send_msg :: "conn \<Rightarrow> MsgType \<Rightarrow> byte list \<Rightarrow> 32 word \<Rightarrow> bool \<times> conn" where
  "send_msg c type data len =
     (let (ok1, c1) = conn_write_all c (msg_header type len) in
      if \<not> ok1 then (False, c1)
      else if len > 0 then
        (let (ok2, c2) = conn_write_all c1 (take (unat len) data) in
         if \<not> ok2 then (False, c2) else (True, c2))
      else (True, c1))"

definition decode_len :: "byte list \<Rightarrow> 32 word" where
  "decode_len hdr =
     push_bit 24 (ucast (hdr ! 1)) OR push_bit 16 (ucast (hdr ! 2))
       OR push_bit 8 (ucast (hdr ! 3)) OR ucast (hdr ! 4)"

text \<open>
  \<^verbatim>\<open>recv_msg\<close>: \<open>None\<close> is the return value false; otherwise the type, the payload
  (empty for the NULL pointer of a zero length) and the length. The first argument says
  whether \<^verbatim>\<open>malloc\<close> finds memory.
\<close>

definition recv_msg ::
  "bool \<Rightarrow> conn \<Rightarrow> (MsgType \<times> byte list \<times> 32 word) option \<times> conn" where
  "recv_msg malloc_ok c =
     (case read_all (rd c) 5 of
        (None, s1) \<Rightarrow> (None, c\<lparr>rd := s1\<rparr>)
      | (Some hdr, s1) \<Rightarrow>
          (let type = hdr ! 0; len = decode_len hdr in
           if len = 0 then (Some (type, [], 0), c\<lparr>rd := s1\<rparr>)
           else if len > 1024 * 1024 then (None, c\<lparr>rd := s1\<rparr>)
           else if \<not> malloc_ok then (None, c\<lparr>rd := s1\<rparr>)
           else (case read_all s1 (unat len) of
                   (None, s2) \<Rightarrow> (None, c\<lparr>rd := s2\<rparr>)
                 | (Some data, s2) \<Rightarrow> (Some (type, data, len), c\<lparr>rd := s2\<rparr>))))"

text \<open>
  What a byte stream delivers when nothing goes wrong: the bytes of its chunks, and the
  streams on which no \<^verbatim>\<open>read\<close> fails before the peer closes.
\<close>

fun rd_bytes :: "rd_ev list \<Rightarrow> byte list" where
  "rd_bytes [] = []"
| "rd_bytes (Chunk bs # s) = bs @ rd_bytes s"
| "rd_bytes (e # s) = rd_bytes s"

fun rd_clean :: "rd_ev list \<Rightarrow> bool" where
  "rd_clean [] = True"
| "rd_clean (Chunk bs # s) = (bs \<noteq> [] \<and> rd_clean s)"
| "rd_clean (REintr # s) = rd_clean s"
| "rd_clean (e # s) = False"

section \<open>The process and its descriptor table\<close>

datatype signal = SIGHUP | SIGTERM | SIGKILL | SIGCHLD | SIGPIPE | SIGWINCH

text \<open>
  The system calls that change something outside the process, in the order in which they
  are made. \<open>SendMsg\<close> records one call of \<^verbatim>\<open>send_msg\<close> on a descriptor with its result;
  \<open>Waitpid\<close> carries the \<^verbatim>\<open>WNOHANG\<close> flag.
\<close>

datatype effect =
    Stderr string
  | Perror string
  | Stdout string
  | StdoutBytes "byte list"
  | Mkdir string nat
  | Chmod string nat
  | Unlink string
  | Kill int signal
  | Usleep nat
  | Waitpid int bool
  | Close int
  | Bind int string
  | WritePid string int
  | WriteInfo string int int int string
  | SendMsg int MsgType "byte list" bool
  | SetRcvTimeo int int
  | Winsize int "16 word" "16 word"
  | SignalIgnore signal
  | SignalHandle signal
  | Tcsetattr bool
  | Atexit
  | Fork
  | Setsid
  | RedirectStdio

record world =
  conns :: "(int \<times> conn) list"
  trace :: "effect list"
  self_pid :: int
  uid :: nat

definition emit :: "world \<Rightarrow> effect \<Rightarrow> world" where
  "emit w e = w\<lparr>trace := trace w @ [e]\<rparr>"

text \<open>The kernel gives a new descriptor the lowest number that is not open.\<close>

definition lowest_free :: "int list \<Rightarrow> int" where
  "lowest_free used =
     (case List.find (\<lambda>n. n \<notin> set used) (map int [0 ..< Suc (length used)]) of
        Some n \<Rightarrow> n
      | None \<Rightarrow> int (length used))"

definition open_fds :: "world \<Rightarrow> int list" where
  "open_fds w = map fst (conns w)"

definition sys_open :: "world \<Rightarrow> conn \<Rightarrow> int \<times> world" where
  "sys_open w c = (let fd = lowest_free (open_fds w) in (fd, w\<lparr>conns := conns w @ [(fd, c)]\<rparr>))"

definition sys_close :: "world \<Rightarrow> int \<Rightarrow> world" where
  "sys_close w fd = emit (w\<lparr>conns := filter (\<lambda>p. fst p \<noteq> fd) (conns w)\<rparr>) (Close fd)"

definition set_conn :: "world \<Rightarrow> int \<Rightarrow> conn \<Rightarrow> world" where
  "set_conn w fd c = w\<lparr>conns := map (\<lambda>p. if fst p = fd then (fd, c) else p) (conns w)\<rparr>"

text \<open>\<^verbatim>\<open>send_msg\<close>, \<^verbatim>\<open>recv_msg\<close> and \<^verbatim>\<open>write_all\<close> on a descriptor number; on a number that
  is not open every system call fails.\<close>

definition send_msg_fd ::
  "world \<Rightarrow> int \<Rightarrow> MsgType \<Rightarrow> byte list \<Rightarrow> 32 word \<Rightarrow> bool \<times> world" where
  "send_msg_fd w fd type data len =
     (case map_of (conns w) fd of
        None \<Rightarrow> (False, emit w (SendMsg fd type (take (unat len) data) False))
      | Some c \<Rightarrow>
          (let (ok, c') = send_msg c type data len
           in (ok, emit (set_conn w fd c') (SendMsg fd type (take (unat len) data) ok))))"

definition recv_msg_fd ::
  "bool \<Rightarrow> world \<Rightarrow> int \<Rightarrow> (MsgType \<times> byte list \<times> 32 word) option \<times> world" where
  "recv_msg_fd malloc_ok w fd =
     (case map_of (conns w) fd of
        None \<Rightarrow> (None, w)
      | Some c \<Rightarrow> (let (r, c') = recv_msg malloc_ok c in (r, set_conn w fd c')))"

definition write_all_fd :: "world \<Rightarrow> int \<Rightarrow> byte list \<Rightarrow> bool \<times> world" where
  "write_all_fd w fd bs =
     (case map_of (conns w) fd of
        None \<Rightarrow> (False, w)
      | Some c \<Rightarrow> (let (ok, c') = conn_write_all c bs in (ok, set_conn w fd c')))"

text \<open>One call of \<^verbatim>\<open>read\<close> for at most \<open>n\<close> bytes; no bytes is the return value 0.\<close>

datatype rd_res = RdBytes "byte list" | RdEintr | RdAgain | RdErr

fun sys_read :: "rd_ev list \<Rightarrow> nat \<Rightarrow> rd_res \<times> rd_ev list" where
  "sys_read [] n = (RdBytes [], [])"
| "sys_read (Chunk bs # s) n =
     (if length bs \<le> n then (RdBytes bs, s) else (RdBytes (take n bs), Chunk (drop n bs) # s))"
| "sys_read (REintr # s) n = (RdEintr, s)"
| "sys_read (RAgain # s) n = (RdAgain, s)"
| "sys_read (RErr # s) n = (RdErr, s)"

definition read_fd :: "world \<Rightarrow> int \<Rightarrow> nat \<Rightarrow> rd_res \<times> world" where
  "read_fd w fd n =
     (case map_of (conns w) fd of
        None \<Rightarrow> (RdErr, w)
      | Some c \<Rightarrow> (let (r, s') = sys_read (rd c) n in (r, set_conn w fd (c\<lparr>rd := s'\<rparr>))))"

section \<open>Paths of the session registry\<close>

function string_of_nat :: "nat \<Rightarrow> string" where
  "string_of_nat n =
     (if n < 10 then [char_of (48 + n)]
      else string_of_nat (n div 10) @ [char_of (48 + n mod 10)])"
  by pat_completeness auto
termination
  by (relation "measure id") auto

definition string_of_int :: "int \<Rightarrow> string" where
  "string_of_int i = (if i < 0 then CHR ''-'' # string_of_nat (nat (- i)) else string_of_nat (nat i))"

definition socket_dir :: "nat \<Rightarrow> string" where
  "socket_dir u = ''/tmp/ghostly-'' @ string_of_nat u"

definition socket_path :: "nat \<Rightarrow> string \<Rightarrow> string" where
  "socket_path u nm = socket_dir u @ ''/'' @ nm @ ''.sock''"

definition pid_path :: "nat \<Rightarrow> string \<Rightarrow> string" where
  "pid_path u nm = socket_dir u @ ''/'' @ nm @ ''.pid''"

definition info_path :: "nat \<Rightarrow> string \<Rightarrow> string" where
  "info_path u nm = socket_dir u @ ''/'' @ nm @ ''.info''"

definition write_pid_file :: "world \<Rightarrow> string \<Rightarrow> int \<Rightarrow> world" where
  "write_pid_file w path p = emit w (WritePid path p)"

definition write_info_file :: "world \<Rightarrow> string \<Rightarrow> int \<Rightarrow> int \<Rightarrow> int \<Rightarrow> string \<Rightarrow> world" where
  "write_info_file w path p clients cr cmd = emit w (WriteInfo path p clients cr cmd)"

definition cleanup_session_files :: "world \<Rightarrow> string \<Rightarrow> world" where
  "cleanup_session_files w nm =
     emit (emit (emit w (Unlink (socket_path (uid w) nm))) (Unlink (pid_path (uid w) nm)))
       (Unlink (info_path (uid w) nm))"

section \<open>Server state\<close>

text \<open>
  \<^verbatim>\<open>struct ServerState\<close>. The array \<^verbatim>\<open>client_fds[MAX_CLIENTS]\<close> is a function of the index;
  the source never initialises it, and of its entries only those below \<^verbatim>\<open>num_clients\<close>
  are meaningful.
\<close>

record ServerState =
  name :: string
  command :: string
  pty_master :: int
  child_pid :: int
  listen_fd :: int
  client_fds :: "nat \<Rightarrow> int"
  num_clients :: int
  created :: int
  child_exit_code :: int
  running :: bool

text \<open>The attached descriptors in table order: entries \<open>0\<close> to \<^verbatim>\<open>num_clients - 1\<close>.\<close>

definition clients :: "ServerState \<Rightarrow> int list" where
  "clients srv = map (client_fds srv) [0 ..< nat (num_clients srv)]"

text \<open>
  The status word that \<^verbatim>\<open>waitpid\<close> stores, as the macros of \<^verbatim>\<open><sys/wait.h>\<close> read it:
  the child exited with a status, was killed by a signal, or neither.
\<close>

datatype wait_status = WExited int | WSignaled int | WOther

fun WIFEXITED :: "wait_status \<Rightarrow> bool" where
  "WIFEXITED (WExited c) = True"
| "WIFEXITED st = False"

fun WIFSIGNALED :: "wait_status \<Rightarrow> bool" where
  "WIFSIGNALED (WSignaled sg) = True"
| "WIFSIGNALED st = False"

fun WEXITSTATUS :: "wait_status \<Rightarrow> int" where
  "WEXITSTATUS (WExited c) = c"
| "WEXITSTATUS st = 0"

fun WTERMSIG :: "wait_status \<Rightarrow> int" where
  "WTERMSIG (WSignaled sg) = sg"
| "WTERMSIG st = 0"

text \<open>
  What a call of \<^verbatim>\<open>waitpid\<close> returns: 0 (the child is still running), the process id of
  a child together with its status, or -1.
\<close>

datatype wait_res = WaitNone | WaitReaped wait_status | WaitError

text \<open>
  The signal handlers. \<^verbatim>\<open>g_server\<close> points to the server state from the moment the
  handlers are installed until the state is torn down, and signals are delivered to the
  model only in between, so the handlers work on the state itself.
\<close>

definition server_sigchld :: "wait_res \<Rightarrow> world \<times> ServerState \<Rightarrow> world \<times> ServerState" where
  "server_sigchld wres ws =
     (let (w, srv) = ws in
      if child_pid srv > 0 then
        (let w1 = emit w (Waitpid (child_pid srv) True);
             srv1 = (case wres of
                       WaitReaped wstatus \<Rightarrow>
                         (if WIFEXITED wstatus then srv\<lparr>child_exit_code := WEXITSTATUS wstatus\<rparr>
                          else if WIFSIGNALED wstatus then
                            srv\<lparr>child_exit_code := 128 + WTERMSIG wstatus\<rparr>
                          else srv)\<lparr>child_pid := - 1\<rparr>
                     | WaitNone \<Rightarrow> srv
                     | WaitError \<Rightarrow> srv)
         in (w1, srv1\<lparr>running := False\<rparr>))
      else (w, srv))"

definition server_sigterm :: "world \<times> ServerState \<Rightarrow> world \<times> ServerState" where
  "server_sigterm ws = (let (w, srv) = ws in (w, srv\<lparr>running := False\<rparr>))"

text \<open>A signal that arrives, with what the handler's \<^verbatim>\<open>waitpid\<close> will find.\<close>

datatype sig_ev = SigChld wait_res | SigTerm

fun deliver :: "sig_ev list \<Rightarrow> world \<times> ServerState \<Rightarrow> world \<times> ServerState" where
  "deliver [] ws = ws"
| "deliver (SigChld wres # sgs) ws = deliver sgs (server_sigchld wres ws)"
| "deliver (SigTerm # sgs) ws = deliver sgs (server_sigterm ws)"

section \<open>Client table\<close>

text \<open>
  \<^verbatim>\<open>server_remove_client\<close>. The source indexes the array with \<^verbatim>\<open>idx\<close> and with
  \<^verbatim>\<open>num_clients - 1\<close>; its callers pass an index of an attached client.
\<close>

definition server_remove_client :: "world \<times> ServerState \<Rightarrow> int \<Rightarrow> world \<times> ServerState" where
  "server_remove_client ws idx =
     (let (w, srv) = ws;
          w1 = sys_close w (client_fds srv (nat idx));
          srv1 = srv\<lparr>client_fds :=
                   (client_fds srv)(nat idx := client_fds srv (nat (num_clients srv - 1)))\<rparr>;
          srv2 = srv1\<lparr>num_clients := num_clients srv1 - 1\<rparr>;
          w2 = write_info_file w1 (info_path (uid w1) (name srv2)) (self_pid w1)
                 (num_clients srv2) (created srv2) (command srv2)
      in (w2, srv2))"

text \<open>
  \<^verbatim>\<open>server_broadcast\<close>: the loop \<^verbatim>\<open>for (i = num_clients - 1; i >= 0; i--)\<close>.
  \<open>broadcast_one\<close> is the body of the loop at index \<open>i\<close>, and the argument \<open>Suc i\<close> of
  \<open>broadcast_from\<close> is the loop about to run the pass at index \<open>i\<close>.
\<close>

definition broadcast_one ::
  "MsgType \<Rightarrow> byte list \<Rightarrow> 32 word \<Rightarrow> nat \<Rightarrow> world \<times> ServerState \<Rightarrow> world \<times> ServerState" where
  "broadcast_one type data len i ws =
     (let (w, srv) = ws;
          (ok, w1) = send_msg_fd w (client_fds srv i) type data len
      in if \<not> ok then server_remove_client (w1, srv) (int i) else (w1, srv))"

fun broadcast_from ::
  "nat \<Rightarrow> MsgType \<Rightarrow> byte list \<Rightarrow> 32 word \<Rightarrow> world \<times> ServerState \<Rightarrow> world \<times> ServerState" where
  "broadcast_from 0 type data len ws = ws"
| "broadcast_from (Suc i) type data len ws =
     broadcast_from i type data len (broadcast_one type data len i ws)"

definition server_broadcast ::
  "world \<times> ServerState \<Rightarrow> MsgType \<Rightarrow> byte list \<Rightarrow> 32 word \<Rightarrow> world \<times> ServerState" where
  "server_broadcast ws type data len =
     broadcast_from (nat (num_clients (snd ws))) type data len ws"

section \<open>The event loop of the daemon\<close>

text \<open>
  One pass of the loop is driven by what the kernel reports in it: the signals that
  arrive during the pass, the result of \<^verbatim>\<open>poll\<close>, the \<^verbatim>\<open>revents\<close> of the listening
  socket, of the PTY master and of each slot of the \<^verbatim>\<open>pollfd\<close> array, the connection that
  \<^verbatim>\<open>accept\<close> returns (if any), and whether \<^verbatim>\<open>malloc\<close> succeeds (index 0 for the handshake,
  \<open>Suc i\<close> for the frame of the client in slot \<open>i\<close>). The \<^verbatim>\<open>revents\<close> are functions of the
  slot: the source reads \<^verbatim>\<open>fds[2 + i]\<close> for the table as it is at that moment, also for a
  slot that was not polled in this pass.
\<close>

datatype poll_res = PollEintr | PollFail | PollOk

record daemon_ev =
  ev_sigs :: "sig_ev list"
  ev_poll :: poll_res
  ev_listen_in :: bool
  ev_pty_in :: bool
  ev_pty_hup :: bool
  ev_client_in :: "nat \<Rightarrow> bool"
  ev_client_hup :: "nat \<Rightarrow> bool"
  ev_accept :: "conn option"
  ev_malloc :: "nat \<Rightarrow> bool"

definition decode_u16 :: "byte \<Rightarrow> byte \<Rightarrow> 16 word" where
  "decode_u16 hi lo = push_bit 8 (ucast hi) OR ucast lo"

text \<open>New client connections: the body of \<^verbatim>\<open>if (fds[0].revents & POLLIN)\<close>.\<close>

definition server_accept :: "daemon_ev \<Rightarrow> world \<times> ServerState \<Rightarrow> world \<times> ServerState" where
  "server_accept ev ws =
     (let (w, srv) = ws in
      case ev_accept ev of
        None \<Rightarrow> (w, srv)
      | Some c \<Rightarrow>
          (let (cfd, w1) = sys_open w c in
           if num_clients srv \<ge> MAX_CLIENTS then (sys_close w1 cfd, srv)
           else
             (let w2 = emit w1 (SetRcvTimeo cfd 2);
                  (r, w3) = recv_msg_fd (ev_malloc ev 0) w2 cfd;
                  (hello_ok, w4) =
                    (case r of
                       None \<Rightarrow> (False, w3)
                     | Some (type, data, len) \<Rightarrow>
                         if type = MSG_HELLO \<and> len = 4 then
                           (True, emit w3 (Winsize (pty_master srv)
                                    (decode_u16 (data ! 0) (data ! 1))
                                    (decode_u16 (data ! 2) (data ! 3))))
                         else (False, w3))
              in if hello_ok then
                   (let w5 = emit w4 (SetRcvTimeo cfd CLIENT_RECV_TIMEOUT);
                        srv1 = srv\<lparr>client_fds := (client_fds srv)(nat (num_clients srv) := cfd),
                                  num_clients := num_clients srv + 1\<rparr>;
                        w6 = write_info_file w5 (info_path (uid w5) (name srv1)) (self_pid w5)
                               (num_clients srv1) (created srv1) (command srv1)
                    in (w6, srv1))
                 else (sys_close w4 cfd, srv))))"

text \<open>PTY output: the two tests of \<^verbatim>\<open>fds[1].revents\<close>.\<close>

definition server_pty :: "daemon_ev \<Rightarrow> world \<times> ServerState \<Rightarrow> world \<times> ServerState" where
  "server_pty ev ws =
     (let (w, srv) = ws;
          (w1, srv1) =
            (if ev_pty_in ev then
               (case read_fd w (pty_master srv) BUF_SIZE of
                  (RdBytes buf, w') \<Rightarrow>
                    if buf \<noteq> [] then
                      server_broadcast (w', srv) MSG_DATA buf (of_nat (length buf))
                    else (w', srv\<lparr>running := False\<rparr>)
                | (RdEintr, w') \<Rightarrow> (w', srv)
                | (RdAgain, w') \<Rightarrow> (w', srv)
                | (RdErr, w') \<Rightarrow> (w', srv\<lparr>running := False\<rparr>))
             else (w, srv))
      in if ev_pty_hup ev then (w1, srv1\<lparr>running := False\<rparr>) else (w1, srv1))"

text \<open>Client input: the body of the loop over the slots, for slot \<open>i\<close>.\<close>

definition client_input :: "daemon_ev \<Rightarrow> nat \<Rightarrow> world \<times> ServerState \<Rightarrow> world \<times> ServerState" where
  "client_input ev i ws =
     (let (w, srv) = ws in
      if ev_client_in ev i \<or> ev_client_hup ev i then
        (if ev_client_in ev i then
           (case recv_msg_fd (ev_malloc ev (Suc i)) w (client_fds srv i) of
              (None, w1) \<Rightarrow> server_remove_client (w1, srv) (int i)
            | (Some (type, data, len), w1) \<Rightarrow>
                if type = MSG_DATA then
                  (if len > 0 then (snd (write_all_fd w1 (pty_master srv) data), srv)
                   else (w1, srv))
                else if type = MSG_WINCH then
                  (if len = 4 then
                     (emit w1 (Winsize (pty_master srv)
                        (decode_u16 (data ! 0) (data ! 1)) (decode_u16 (data ! 2) (data ! 3))),
                      srv)
                   else (w1, srv))
                else if type = MSG_DETACH then server_remove_client (w1, srv) (int i)
                else (w1, srv))
         else server_remove_client (w, srv) (int i))
      else (w, srv))"

fun client_inputs_from :: "daemon_ev \<Rightarrow> nat \<Rightarrow> world \<times> ServerState \<Rightarrow> world \<times> ServerState" where
  "client_inputs_from ev 0 ws = ws"
| "client_inputs_from ev (Suc i) ws = client_inputs_from ev i (client_input ev i ws)"

definition client_inputs :: "daemon_ev \<Rightarrow> world \<times> ServerState \<Rightarrow> world \<times> ServerState" where
  "client_inputs ev ws = client_inputs_from ev (nat (num_clients (snd ws))) ws"

text \<open>
  One pass of \<^verbatim>\<open>while (srv.running)\<close>; the first component says that the pass left the
  loop by \<^verbatim>\<open>break\<close>.
\<close>

definition server_iter :: "daemon_ev \<Rightarrow> world \<times> ServerState \<Rightarrow> bool \<times> world \<times> ServerState" where
  "server_iter ev ws =
     (case ev_poll ev of
        PollEintr \<Rightarrow> (False, ws)
      | PollFail \<Rightarrow> (True, ws)
      | PollOk \<Rightarrow>
          (False,
           client_inputs ev
             (server_pty ev (if ev_listen_in ev then server_accept ev ws else ws))))"

text \<open>
  The loop over a list of passes. The handlers of the signals of a pass run after its
  body: the body reads nothing that a handler writes, and both only ever clear the
  running flag. The first component of the result says whether the loop was left; it is
  false when the list ends while the daemon is still running.
\<close>

fun event_loop :: "daemon_ev list \<Rightarrow> world \<times> ServerState \<Rightarrow> bool \<times> world \<times> ServerState" where
  "event_loop [] ws = (\<not> running (snd ws), ws)"
| "event_loop (ev # evs) ws =
     (if \<not> running (snd ws) then (True, ws)
      else
        (let (brk, ws1) = server_iter ev ws;
             ws2 = deliver (ev_sigs ev) ws1
         in if brk then (True, ws2) else event_loop evs ws2))"

section \<open>Shutdown of the daemon\<close>

text \<open>
  What the kernel reports during the shutdown sequence: the signals that arrive during the
  two pauses, the results of the three calls of \<^verbatim>\<open>waitpid\<close>, and the value that the
  variable \<^verbatim>\<open>wstatus\<close> holds before any call has stored a status (the source does not
  initialise it). A call of \<^verbatim>\<open>waitpid\<close> stores a status only when it reaps a child.
\<close>

record shutdown_env =
  sh_sigs1 :: "sig_ev list"
  sh_wait1 :: wait_res
  sh_sigs2 :: "sig_ev list"
  sh_wait2 :: wait_res
  sh_wait3 :: wait_res
  sh_wstatus0 :: wait_status

definition stored_status :: "wait_res \<Rightarrow> wait_status \<Rightarrow> wait_status" where
  "stored_status r wstatus = (case r of WaitReaped st \<Rightarrow> st | WaitNone \<Rightarrow> wstatus | WaitError \<Rightarrow> wstatus)"

text \<open>The last statement of the block: \<^verbatim>\<open>// Capture exit code if not already set\<close>.\<close>

definition capture_exit_code :: "wait_status \<Rightarrow> ServerState \<Rightarrow> ServerState" where
  "capture_exit_code wstatus srv =
     (if child_exit_code srv = 0 \<and> WIFEXITED wstatus
      then srv\<lparr>child_exit_code := WEXITSTATUS wstatus\<rparr> else srv)"

definition shutdown_child :: "shutdown_env \<Rightarrow> world \<times> ServerState \<Rightarrow> world \<times> ServerState" where
  "shutdown_child e ws =
     (let (w, srv) = ws in
      if child_pid srv > 0 then
        (let w1 = emit (emit w (Kill (child_pid srv) SIGHUP)) (Usleep 50000);
             (w2, srv2) = deliver (sh_sigs1 e) (w1, srv);
             w3 = emit w2 (Waitpid (child_pid srv2) True);
             wstatus1 = stored_status (sh_wait1 e) (sh_wstatus0 e)
         in if sh_wait1 e = WaitNone then
              (let w4 = emit (emit w3 (Kill (child_pid srv2) SIGTERM)) (Usleep 100000);
                   (w5, srv5) = deliver (sh_sigs2 e) (w4, srv2);
                   w6 = emit w5 (Waitpid (child_pid srv5) True);
                   wstatus2 = stored_status (sh_wait2 e) wstatus1
               in if sh_wait2 e = WaitNone then
                    (let w7 = emit (emit w6 (Kill (child_pid srv5) SIGKILL))
                                (Waitpid (child_pid srv5) False);
                         wstatus3 = stored_status (sh_wait3 e) wstatus2
                     in (w7, capture_exit_code wstatus3 srv5))
                  else (w6, capture_exit_code wstatus2 srv5))
            else (w3, capture_exit_code wstatus1 srv2))
      else (w, srv))"

text \<open>\<^verbatim>\<open>uint8_t ec = (uint8_t)srv.child_exit_code; server_broadcast(srv, MSG_EXIT, &ec, 1);\<close>\<close>

definition server_exit_broadcast :: "world \<times> ServerState \<Rightarrow> world \<times> ServerState" where
  "server_exit_broadcast ws =
     server_broadcast ws MSG_EXIT [of_int (child_exit_code (snd ws))] 1"

fun close_all :: "int list \<Rightarrow> world \<Rightarrow> world" where
  "close_all [] w = w"
| "close_all (fd # fds) w = close_all fds (sys_close w fd)"

definition server_cleanup :: "world \<times> ServerState \<Rightarrow> world \<times> ServerState" where
  "server_cleanup ws =
     (let (w, srv) = ws;
          w1 = close_all (clients srv) w;
          w2 = sys_close (sys_close w1 (listen_fd srv)) (pty_master srv)
      in (cleanup_session_files w2 (name srv), srv))"

section \<open>Starting the daemon\<close>

definition nl :: string where
  "nl = [CHR 0x0A]"

text \<open>What \<^verbatim>\<open>lstat\<close> reports about the socket directory.\<close>

record dir_stat =
  st_islnk :: bool
  st_isdir :: bool
  st_uid :: nat

definition ensure_socket_dir :: "dir_stat option \<Rightarrow> world \<Rightarrow> bool \<times> world" where
  "ensure_socket_dir st w =
     (let dir = socket_dir (uid w);
          w1 = emit w (Mkdir dir 448)
      in case st of
           None \<Rightarrow> (False, emit w1 (Stderr (''Cannot stat socket directory: '' @ dir @ nl)))
         | Some s \<Rightarrow>
             if st_islnk s then
               (False, emit w1 (Stderr (''Socket directory is a symlink (possible attack): ''
                                          @ dir @ nl)))
             else if \<not> st_isdir s then
               (False, emit w1 (Stderr (''Socket path is not a directory: '' @ dir @ nl)))
             else if st_uid s \<noteq> uid w then
               (False, emit w1 (Stderr (''Socket directory not owned by us (uid ''
                  @ string_of_nat (uid w) @ '', owner '' @ string_of_nat (st_uid s) @ ''): ''
                  @ dir @ nl)))
             else (True, emit w1 (Chmod dir 448)))"

text \<open>
  What the kernel answers while the listening socket is made; \<open>le_sun_path\<close> is
  \<^verbatim>\<open>sizeof(addr.sun_path)\<close>, which the system headers fix.
\<close>

record listen_env =
  le_sun_path :: nat
  le_socket_ok :: bool
  le_bind_ok :: bool
  le_listen_ok :: bool

definition no_conn :: conn where
  "no_conn = \<lparr>rd = [], wr = [], out = []\<rparr>"

definition socket_path_fits :: "nat \<Rightarrow> string \<Rightarrow> bool" where
  "socket_path_fits sun_path path \<longleftrightarrow> length path < sun_path"

definition create_listen_socket :: "listen_env \<Rightarrow> world \<Rightarrow> string \<Rightarrow> int \<times> world" where
  "create_listen_socket e w path =
     (if \<not> socket_path_fits (le_sun_path e) path then
        (- 1, emit w (Stderr (''Socket path too long: '' @ path @ nl)))
      else if \<not> le_socket_ok e then (- 1, w)
      else
        (let (fd, w1) = sys_open w no_conn;
             w2 = emit w1 (Unlink path)
         in if \<not> le_bind_ok e then (- 1, sys_close w2 fd)
            else
              (let w3 = emit w2 (Bind fd path)
               in if \<not> le_listen_ok e then (- 1, sys_close w3 fd)
                  else (fd, emit w3 (Chmod path 384)))))"

text \<open>
  The environment of \<^verbatim>\<open>run_server\<close>. \<^verbatim>\<open>forkpty\<close> fails or returns, in the parent, the
  process id of the child and the PTY master; the child's side, which executes the shell,
  is another process and not part of the model. \<open>se_junk\<close> is the content of the
  uninitialised array \<^verbatim>\<open>client_fds\<close>, \<open>se_now\<close> is \<^verbatim>\<open>time(NULL)\<close>, \<open>se_sigs0\<close> are
  the signals that arrive between the installation of the handlers and the loop.
\<close>

record server_env =
  se_stat :: "dir_stat option"
  se_forkpty :: "(int \<times> conn) option"
  se_listen :: listen_env
  se_junk :: "nat \<Rightarrow> int"
  se_now :: int
  se_sigs0 :: "sig_ev list"
  se_events :: "daemon_ev list"
  se_shutdown :: shutdown_env

text \<open>
  \<^verbatim>\<open>run_server\<close>: the return value and the world at that point; the value is \<open>None\<close>
  when the list of passes ends while the daemon is still in its loop.
\<close>

definition run_server :: "server_env \<Rightarrow> world \<Rightarrow> string \<Rightarrow> string \<Rightarrow> int option \<times> world" where
  "run_server e w nm cmd =
     (case ensure_socket_dir (se_stat e) w of
        (False, w1) \<Rightarrow> (Some 1, w1)
      | (True, w1) \<Rightarrow>
          (case se_forkpty e of
             None \<Rightarrow> (Some 1, emit w1 (Perror ''forkpty''))
           | Some (child, pty) \<Rightarrow>
               (let (pty_fd, w2) = sys_open w1 pty;
                    spath = socket_path (uid w2) nm;
                    (lfd, w3) = create_listen_socket (se_listen e) w2 spath
                in if lfd < 0 then
                     (Some 1,
                      emit (emit (emit w3 (Stderr (''Failed to create socket: '' @ spath @ nl)))
                        (Kill child SIGTERM)) (Waitpid child False))
                   else
                     (let srv = \<lparr>name = nm, command = (if cmd = [] then ''bash'' else cmd),
                                 pty_master = pty_fd, child_pid = child, listen_fd = lfd,
                                 client_fds = se_junk e, num_clients = 0, created = se_now e,
                                 child_exit_code = 0, running = True\<rparr>;
                          w4 = write_pid_file w3 (pid_path (uid w3) nm) (self_pid w3);
                          w5 = write_info_file w4 (info_path (uid w4) nm) (self_pid w4) 0
                                 (created srv) (command srv);
                          w6 = emit (emit (emit w5 (SignalHandle SIGCHLD)) (SignalHandle SIGTERM))
                                 (SignalIgnore SIGPIPE);
                          (left, ws1) = event_loop (se_events e) (deliver (se_sigs0 e) (w6, srv))
                      in if \<not> left then (None, fst ws1)
                         else
                           (let (w7, srv7) =
                                  server_cleanup
                                    (server_exit_broadcast (shutdown_child (se_shutdown e) ws1))
                            in (Some (child_exit_code srv7), w7))))))"

section \<open>Notions for stating the properties\<close>

text \<open>The frames of a trace: descriptor and type of each call of \<^verbatim>\<open>send_msg\<close>, in order.\<close>

fun sends :: "effect list \<Rightarrow> (int \<times> MsgType) list" where
  "sends [] = []"
| "sends (SendMsg fd t p ok # es) = (fd, t) # sends es"
| "sends (e # es) = sends es"

text \<open>The descriptors closed in a trace and the client counts written to the info file.\<close>

fun closes :: "effect list \<Rightarrow> int list" where
  "closes [] = []"
| "closes (Close fd # es) = fd # closes es"
| "closes (e # es) = closes es"

fun info_counts :: "effect list \<Rightarrow> int list" where
  "info_counts [] = []"
| "info_counts (WriteInfo path p n cr cmd # es) = n # info_counts es"
| "info_counts (e # es) = info_counts es"

text \<open>Whether \<^verbatim>\<open>send_msg\<close> of a frame on a descriptor succeeds in a world.\<close>

definition fd_send_ok :: "world \<Rightarrow> MsgType \<Rightarrow> byte list \<Rightarrow> 32 word \<Rightarrow> int \<Rightarrow> bool" where
  "fd_send_ok w type data len fd =
     (case map_of (conns w) fd of None \<Rightarrow> False | Some c \<Rightarrow> fst (send_msg c type data len))"

text \<open>
  The state of the daemon between two steps: the count is within the array, and the
  attached descriptors are open and pairwise different.
\<close>

definition srv_inv :: "world \<times> ServerState \<Rightarrow> bool" where
  "srv_inv ws \<longleftrightarrow>
     0 \<le> num_clients (snd ws) \<and> num_clients (snd ws) \<le> MAX_CLIENTS \<and>
     distinct (clients (snd ws)) \<and> set (clients (snd ws)) \<subseteq> set (open_fds (fst ws))"

text \<open>Whether the handshake on a new connection delivers a valid \<^verbatim>\<open>HELLO\<close> frame.\<close>

definition hello_frame :: "bool \<Rightarrow> conn \<Rightarrow> bool" where
  "hello_frame malloc_ok c =
     (case fst (recv_msg malloc_ok c) of
        None \<Rightarrow> False
      | Some (type, data, len) \<Rightarrow> type = MSG_HELLO \<and> len = 4)"

section \<open>A sample run of the daemon\<close>

text \<open>
  An environment in which two clients attach, the PTY delivers two bytes and the child
  then exits, together with the worlds that the start of \<^verbatim>\<open>run_server\<close> goes through in it.
\<close>

definition wit_client :: conn where
  "wit_client = \<lparr>rd = [Chunk [5, 0, 0, 0, 4, 0, 80, 0, 24]],
                  wr = [Wrote 9, Wrote 9, Wrote 9, Wrote 9], out = []\<rparr>"

definition wit_env :: server_env where
  "wit_env =
     \<lparr>se_stat = Some \<lparr>st_islnk = False, st_isdir = True, st_uid = 0\<rparr>,
      se_forkpty = Some (100, \<lparr>rd = [Chunk [104, 105]], wr = [], out = []\<rparr>),
      se_listen = \<lparr>le_sun_path = 108, le_socket_ok = True, le_bind_ok = True, le_listen_ok = True\<rparr>,
      se_junk = (\<lambda>i. 0), se_now = 0, se_sigs0 = [],
      se_events =
        [\<lparr>ev_sigs = [], ev_poll = PollOk, ev_listen_in = True, ev_pty_in = False,
          ev_pty_hup = False, ev_client_in = (\<lambda>i. False), ev_client_hup = (\<lambda>i. False),
          ev_accept = Some wit_client, ev_malloc = (\<lambda>i. True)\<rparr>,
         \<lparr>ev_sigs = [], ev_poll = PollOk, ev_listen_in = True, ev_pty_in = False,
          ev_pty_hup = False, ev_client_in = (\<lambda>i. False), ev_client_hup = (\<lambda>i. False),
          ev_accept = Some wit_client, ev_malloc = (\<lambda>i. True)\<rparr>,
         \<lparr>ev_sigs = [SigChld (WaitReaped (WExited 0))], ev_poll = PollOk, ev_listen_in = False,
          ev_pty_in = True, ev_pty_hup = False, ev_client_in = (\<lambda>i. False),
          ev_client_hup = (\<lambda>i. False), ev_accept = None, ev_malloc = (\<lambda>i. True)\<rparr>],
      se_shutdown = \<lparr>sh_sigs1 = [], sh_wait1 = WaitNone, sh_sigs2 = [], sh_wait2 = WaitNone,
                     sh_wait3 = WaitError, sh_wstatus0 = WOther\<rparr>\<rparr>"

definition wit_world :: world where
  "wit_world = \<lparr>conns = [(0, no_conn), (1, no_conn), (2, no_conn)], trace = [],
                 self_pid = 50, uid = 0\<rparr>"

definition wit_srv :: ServerState where
  "wit_srv = \<lparr>name = ''s'', command = ''bash'', pty_master = 3, child_pid = 100, listen_fd = 4,
                client_fds = (\<lambda>i. 0), num_clients = 0, created = 0, child_exit_code = 0,
                running = True\<rparr>"

definition wit_w1 :: world where
  "wit_w1 = \<lparr>conns = [(0, no_conn), (1, no_conn), (2, no_conn)],
              trace = [Mkdir ''/tmp/ghostly-0'' 448, Chmod ''/tmp/ghostly-0'' 448],
              self_pid = 50, uid = 0\<rparr>"

definition wit_w2 :: world where
  "wit_w2 = \<lparr>conns = [(0, no_conn), (1, no_conn), (2, no_conn),
               (3, \<lparr>rd = [Chunk [104, 105]], wr = [], out = []\<rparr>)],
              trace = [Mkdir ''/tmp/ghostly-0'' 448, Chmod ''/tmp/ghostly-0'' 448],
              self_pid = 50, uid = 0\<rparr>"

definition wit_w3 :: world where
  "wit_w3 = \<lparr>conns = [(0, no_conn), (1, no_conn), (2, no_conn),
               (3, \<lparr>rd = [Chunk [104, 105]], wr = [], out = []\<rparr>), (4, no_conn)],
              trace = [Mkdir ''/tmp/ghostly-0'' 448, Chmod ''/tmp/ghostly-0'' 448,
               Unlink ''/tmp/ghostly-0/s.sock'', Bind 4 ''/tmp/ghostly-0/s.sock'',
               Chmod ''/tmp/ghostly-0/s.sock'' 384],
              self_pid = 50, uid = 0\<rparr>"

definition wit_w6 :: world where
  "wit_w6 =
     \<lparr>conns = [(0, no_conn), (1, no_conn), (2, no_conn),
               (3, \<lparr>rd = [Chunk [104, 105]], wr = [], out = []\<rparr>), (4, no_conn)],
      trace = [Mkdir ''/tmp/ghostly-0'' 448, Chmod ''/tmp/ghostly-0'' 448,
               Unlink ''/tmp/ghostly-0/s.sock'', Bind 4 ''/tmp/ghostly-0/s.sock'',
               Chmod ''/tmp/ghostly-0/s.sock'' 384,
               WritePid ''/tmp/ghostly-0/s.pid'' 50,
               WriteInfo ''/tmp/ghostly-0/s.info'' 50 0 0 ''bash'',
               SignalHandle SIGCHLD, SignalHandle SIGTERM, SignalIgnore SIGPIPE],
      self_pid = 50, uid = 0\<rparr>"

section \<open>The attach client\<close>

definition sq :: string where
  "sq = [CHR 0x27]"

definition crlf :: string where
  "crlf = [CHR 0x0D, CHR 0x0A]"

text \<open>
  The local variables \<^verbatim>\<open>running\<close> and \<^verbatim>\<open>exit_code\<close> of \<^verbatim>\<open>cmd_attach\<close> and the globals
  \<^verbatim>\<open>got_winch\<close> and \<^verbatim>\<open>termios_saved\<close>.
\<close>

record client_state =
  cl_running :: bool
  exit_code :: int
  got_winch :: bool
  termios_saved :: bool

text \<open>
  What the kernel reports in one pass of the client's loop: whether \<^verbatim>\<open>SIGWINCH\<close> arrives
  while the client polls, the result of \<^verbatim>\<open>poll\<close>, the \<^verbatim>\<open>revents\<close> of standard input and of
  the socket, the window size that \<^verbatim>\<open>ioctl\<close> returns (if it succeeds), and whether
  \<^verbatim>\<open>malloc\<close> succeeds.
\<close>

record client_ev =
  ce_winch :: bool
  ce_poll :: poll_res
  ce_stdin_in :: bool
  ce_sock_in :: bool
  ce_sock_hup :: bool
  ce_winsize :: "(16 word \<times> 16 word) option"
  ce_malloc :: bool

definition term_raw :: "bool \<Rightarrow> bool \<Rightarrow> world \<times> client_state \<Rightarrow> world \<times> client_state" where
  "term_raw isatty tcgetattr_ok wc =
     (let (w, cs) = wc in
      if \<not> isatty then (w, cs)
      else if \<not> tcgetattr_ok then (w, cs)
      else (emit w (Tcsetattr True), cs\<lparr>termios_saved := True\<rparr>))"

definition term_restore :: "world \<times> client_state \<Rightarrow> world \<times> client_state" where
  "term_restore wc =
     (let (w, cs) = wc in
      (if termios_saved cs then emit w (Tcsetattr False) else w, cs\<lparr>termios_saved := False\<rparr>))"

definition winsize_bytes :: "16 word \<Rightarrow> 16 word \<Rightarrow> byte list" where
  "winsize_bytes cols rows =
     [ucast (drop_bit 8 cols AND 0xFF), ucast (cols AND 0xFF),
      ucast (drop_bit 8 rows AND 0xFF), ucast (rows AND 0xFF)]"

definition send_window_size :: "(16 word \<times> 16 word) option \<Rightarrow> world \<Rightarrow> int \<Rightarrow> world" where
  "send_window_size ws w sock_fd =
     (case ws of
        None \<Rightarrow> w
      | Some (cols, rows) \<Rightarrow> snd (send_msg_fd w sock_fd MSG_WINCH (winsize_bytes cols rows) 4))"

text \<open>The scan \<^verbatim>\<open>for (i = 0; i < n; i++) if (buf[i] == DETACH_KEY)\<close>.\<close>

fun has_detach :: "byte list \<Rightarrow> bool" where
  "has_detach [] = False"
| "has_detach (b # bs) = (if b = DETACH_KEY then True else has_detach bs)"

text \<open>Stdin to server: the body of \<^verbatim>\<open>if (fds[0].revents & POLLIN)\<close>.\<close>

definition client_stdin :: "string \<Rightarrow> int \<Rightarrow> world \<times> client_state \<Rightarrow> world \<times> client_state" where
  "client_stdin nm sock_fd wc =
     (let (w, cs) = wc in
      case read_fd w 0 BUF_SIZE of
        (RdBytes buf, w1) \<Rightarrow>
          if buf \<noteq> [] then
            (if has_detach buf then
               (let (ok, w2) = send_msg_fd w1 sock_fd MSG_DETACH [] 0;
                    (w3, cs3) = term_restore (w2, cs\<lparr>cl_running := False\<rparr>)
                in (emit w3 (Stderr (crlf @ ''[detached from '' @ sq @ nm @ sq @ '']'' @ crlf)),
                    cs3))
             else if cl_running cs then
               (let (ok, w2) = send_msg_fd w1 sock_fd MSG_DATA buf (of_nat (length buf))
                in if \<not> ok then (w2, cs\<lparr>cl_running := False\<rparr>) else (w2, cs))
             else (w1, cs))
          else (w1, cs\<lparr>cl_running := False\<rparr>)
      | (RdEintr, w1) \<Rightarrow> (w1, cs)
      | (RdAgain, w1) \<Rightarrow> (w1, cs)
      | (RdErr, w1) \<Rightarrow> (w1, cs))"

text \<open>
  Server to stdout: the body of \<^verbatim>\<open>if (running && (fds[1].revents & POLLIN))\<close>. The first
  component says that the pass ends here by \<^verbatim>\<open>continue\<close>.
\<close>

definition client_sock ::
  "int \<Rightarrow> client_ev \<Rightarrow> world \<times> client_state \<Rightarrow> bool \<times> world \<times> client_state" where
  "client_sock sock_fd ev wc =
     (let (w, cs) = wc in
      case recv_msg_fd (ce_malloc ev) w sock_fd of
        (None, w1) \<Rightarrow> (True, w1, cs\<lparr>cl_running := False\<rparr>)
      | (Some (type, data, len), w1) \<Rightarrow>
          (False,
           if type = MSG_DATA then
             (if len > 0 then (snd (write_all_fd w1 1 data), cs) else (w1, cs))
           else if type = MSG_EXIT then
             (w1, (if len \<ge> 1 then cs\<lparr>exit_code := uint (data ! 0)\<rparr> else cs)
                    \<lparr>cl_running := False\<rparr>)
           else (w1, cs)))"

text \<open>
  \<^verbatim>\<open>SIGWINCH\<close>: the handler sets the flag while the client polls, and the loop, when it
  finds the flag set, clears it and sends the window size.
\<close>

definition note_winch :: "client_ev \<Rightarrow> client_state \<Rightarrow> client_state" where
  "note_winch ev cs = (if ce_winch ev then cs\<lparr>got_winch := True\<rparr> else cs)"

definition client_winch :: "client_ev \<Rightarrow> int \<Rightarrow> world \<times> client_state \<Rightarrow> world \<times> client_state" where
  "client_winch ev sock_fd wc =
     (let (w, cs) = wc in
      if got_winch cs
      then (send_window_size (ce_winsize ev) w sock_fd, cs\<lparr>got_winch := False\<rparr>)
      else (w, cs))"

text \<open>One pass of \<^verbatim>\<open>while (running)\<close>; the first component says that it left by \<^verbatim>\<open>break\<close>.\<close>

definition client_iter ::
  "string \<Rightarrow> int \<Rightarrow> client_ev \<Rightarrow> world \<times> client_state \<Rightarrow> bool \<times> world \<times> client_state" where
  "client_iter nm sock_fd ev wc =
     (let (w, cs) = wc;
          cs0 = note_winch ev cs
      in case ce_poll ev of
           PollEintr \<Rightarrow> (False, client_winch ev sock_fd (w, cs0))
         | PollFail \<Rightarrow> (True, w, cs0)
         | PollOk \<Rightarrow>
             (let (w2, cs2) =
                    (if ce_stdin_in ev then client_stdin nm sock_fd (client_winch ev sock_fd (w, cs0))
                     else client_winch ev sock_fd (w, cs0));
                  (cont, w3, cs3) =
                    (if cl_running cs2 \<and> ce_sock_in ev then client_sock sock_fd ev (w2, cs2)
                     else (False, w2, cs2))
              in (False,
                  if \<not> cont \<and> ce_sock_hup ev then (w3, cs3\<lparr>cl_running := False\<rparr>)
                  else (w3, cs3))))"

fun client_loop ::
  "string \<Rightarrow> int \<Rightarrow> client_ev list \<Rightarrow> world \<times> client_state \<Rightarrow> bool \<times> world \<times> client_state" where
  "client_loop nm sock_fd [] wc = (\<not> cl_running (snd wc), wc)"
| "client_loop nm sock_fd (ev # evs) wc =
     (if \<not> cl_running (snd wc) then (True, wc)
      else
        (let (brk, wc1) = client_iter nm sock_fd ev wc
         in if brk then (True, wc1) else client_loop nm sock_fd evs wc1))"

text \<open>
  How a command ends: it returns to \<^verbatim>\<open>main\<close>, it ends the process with \<^verbatim>\<open>_exit\<close>, or the
  list of passes of the model ends while the process is still in a loop.
\<close>

datatype outcome = Return int | Exit int | Pending

record attach_env =
  ae_sun_path :: nat
  ae_socket_ok :: bool
  ae_connect :: "conn option"
  ae_winsize :: "(16 word \<times> 16 word) option"
  ae_isatty :: bool
  ae_tcgetattr_ok :: bool
  ae_events :: "client_ev list"

definition connect_to_session :: "attach_env \<Rightarrow> world \<Rightarrow> string \<Rightarrow> int \<times> world" where
  "connect_to_session e w nm =
     (let spath = socket_path (uid w) nm in
      if \<not> socket_path_fits (ae_sun_path e) spath then
        (- 1, emit w (Stderr (''Socket path too long: '' @ spath @ nl)))
      else if \<not> ae_socket_ok e then (- 1, w)
      else
        (case ae_connect e of
           None \<Rightarrow> (let (fd, w1) = sys_open w no_conn in (- 1, sys_close w1 fd))
         | Some c \<Rightarrow> sys_open w c))"

definition client_init :: client_state where
  "client_init = \<lparr>cl_running = True, exit_code = 0, got_winch = False, termios_saved = False\<rparr>"

text \<open>
  \<^verbatim>\<open>cmd_attach\<close> up to its loop: either it returns early, or it reaches the loop with
  the socket and the state given on the right.
\<close>

definition attach_setup ::
  "attach_env \<Rightarrow> world \<Rightarrow> string \<Rightarrow> (outcome \<times> world) + (int \<times> world \<times> client_state)" where
  "attach_setup e w nm =
     (if \<not> valid_session_name nm then
        Inl (Return 1, emit w (Stderr (''Invalid session name '' @ sq @ nm @ sq @ nl)))
      else
        (let (sock_fd, w2) = connect_to_session e (emit w (SignalIgnore SIGPIPE)) nm in
         if sock_fd < 0 then
           Inl (Return 1, emit w2 (Stderr (''Cannot attach to session '' @ sq @ nm @ sq
                                             @ '': not running'' @ nl)))
         else
           (let (cols, rows) = (case ae_winsize e of None \<Rightarrow> (80, 24) | Some p \<Rightarrow> p);
                (ok, w3) = send_msg_fd w2 sock_fd MSG_HELLO (winsize_bytes cols rows) 4
            in if \<not> ok then
                 Inl (Return 1,
                      sys_close (emit w3 (Stderr (''Failed to send HELLO to session '' @ sq @ nm
                                                    @ sq @ nl))) sock_fd)
               else
                 (let (w5, cs5) = term_raw (ae_isatty e) (ae_tcgetattr_ok e)
                                    (emit w3 Atexit, client_init)
                  in Inr (sock_fd, emit w5 (SignalHandle SIGWINCH), cs5)))))"

text \<open>The loop of \<^verbatim>\<open>cmd_attach\<close> and what follows it.\<close>

definition cmd_attach :: "attach_env \<Rightarrow> world \<Rightarrow> string \<Rightarrow> outcome \<times> world" where
  "cmd_attach e w nm =
     (case attach_setup e w nm of
        Inl r \<Rightarrow> r
      | Inr (sock_fd, wc) \<Rightarrow>
          (let (left, w7, cs7) = client_loop nm sock_fd (ae_events e) wc
           in if \<not> left then (Pending, w7)
              else
                (let (w8, cs8) = term_restore (w7, cs7)
                 in (Return (exit_code cs8), sys_close w8 sock_fd))))"

section \<open>The commands create, open and kill\<close>

definition invalid_name_long :: "string \<Rightarrow> string" where
  "invalid_name_long nm =
     ''Invalid session name '' @ sq @ nm @ sq
       @ '': use alphanumeric, dash, underscore, dot (max '' @ string_of_nat MAX_NAME_LEN
       @ '' chars)'' @ nl"

text \<open>
  What \<^verbatim>\<open>fork\<close> returns: an error, the parent's side, or the child's side together with
  the process id that the child has.
\<close>

datatype fork_res = ForkFail | ForkParent | ForkChild int

text \<open>
  The environment of \<^verbatim>\<open>cmd_create\<close>: what \<^verbatim>\<open>lstat\<close> reports, whether the socket file
  exists, the content of the pid file (0 if there is none), whether that process is alive,
  the results of the two calls of \<^verbatim>\<open>fork\<close>, whether the socket file exists in each pass of
  the parent's waiting loop, whether \<^verbatim>\<open>/dev/null\<close> can be opened, and the environment of
  the daemon.
\<close>

record create_env =
  cr_stat :: "dir_stat option"
  cr_exists :: bool
  cr_pid :: int
  cr_alive :: bool
  cr_fork1 :: fork_res
  cr_appears :: "nat \<Rightarrow> bool"
  cr_fork2 :: fork_res
  cr_devnull :: bool
  cr_server :: server_env

text \<open>The parent's loop \<^verbatim>\<open>for (i = 0; i < 20; i++)\<close>; it returns 0 either way.\<close>

fun wait_socket :: "(nat \<Rightarrow> bool) \<Rightarrow> nat \<Rightarrow> nat \<Rightarrow> world \<Rightarrow> world" where
  "wait_socket appears i 0 w = w"
| "wait_socket appears i (Suc k) w =
     (let w1 = emit w (Usleep 50000)
      in if appears i then w1 else wait_socket appears (Suc i) k w1)"

definition cmd_create :: "create_env \<Rightarrow> world \<Rightarrow> string \<Rightarrow> string \<Rightarrow> outcome \<times> world" where
  "cmd_create e w nm cmd =
     (if \<not> valid_session_name nm then (Return 1, emit w (Stderr (invalid_name_long nm)))
      else
        (case ensure_socket_dir (cr_stat e) w of
           (False, w1) \<Rightarrow> (Return 1, w1)
         | (True, w1) \<Rightarrow>
             if cr_exists e \<and> cr_pid e > 0 \<and> cr_alive e then
               (Return 1,
                emit w1 (Stderr (''Session '' @ sq @ nm @ sq @ '' already exists (pid ''
                                   @ string_of_int (cr_pid e) @ '')'' @ nl)))
             else
               (let w2 = (if cr_exists e then cleanup_session_files w1 nm else w1)
                in case cr_fork1 e of
                     ForkFail \<Rightarrow> (Return 1, emit w2 (Perror ''fork''))
                   | ForkParent \<Rightarrow> (Return 0, wait_socket (cr_appears e) 0 20 (emit w2 Fork))
                   | ForkChild p1 \<Rightarrow>
                       (let w3 = emit (w2\<lparr>self_pid := p1\<rparr>) Setsid
                        in case cr_fork2 e of
                             ForkFail \<Rightarrow> (Exit 1, w3)
                           | ForkParent \<Rightarrow> (Exit 0, emit w3 Fork)
                           | ForkChild p2 \<Rightarrow>
                               (let w4 = (if cr_devnull e
                                          then emit (w3\<lparr>self_pid := p2\<rparr>) RedirectStdio
                                          else w3\<lparr>self_pid := p2\<rparr>)
                                in case run_server (cr_server e) w4 nm cmd of
                                     (None, w5) \<Rightarrow> (Pending, w5)
                                   | (Some rc, w5) \<Rightarrow> (Exit rc, w5))))))"

text \<open>
  The environment of \<^verbatim>\<open>cmd_open\<close>: the probes of the registry and the environments of the
  commands it calls.
\<close>

record open_env =
  oe_exists :: bool
  oe_pid :: int
  oe_alive :: bool
  oe_attach :: attach_env
  oe_create :: create_env

definition cmd_open :: "open_env \<Rightarrow> world \<Rightarrow> string \<Rightarrow> string \<Rightarrow> outcome \<times> world" where
  "cmd_open e w nm cmd =
     (if \<not> valid_session_name nm then (Return 1, emit w (Stderr (invalid_name_long nm)))
      else if oe_exists e \<and> oe_pid e > 0 \<and> oe_alive e then cmd_attach (oe_attach e) w nm
      else
        (let w1 = (if oe_exists e then cleanup_session_files w nm else w)
         in case cmd_create (oe_create e) w1 nm cmd of
              (Return rc, w2) \<Rightarrow>
                if rc \<noteq> 0 then (Return rc, w2)
                else cmd_attach (oe_attach e) (emit w2 (Usleep 100000)) nm
            | (Exit c, w2) \<Rightarrow> (Exit c, w2)
            | (Pending, w2) \<Rightarrow> (Pending, w2)))"

text \<open>
  The environment of \<^verbatim>\<open>cmd_kill\<close>: the content of the pid file and what the successive
  calls of \<^verbatim>\<open>process_alive\<close> return.
\<close>

record kill_env =
  ke_pid :: int
  ke_alive :: "nat \<Rightarrow> bool"

text \<open>The loop \<^verbatim>\<open>for (i = 0; i < 10; i++)\<close>; the result says whether the process died.\<close>

fun kill_poll :: "(nat \<Rightarrow> bool) \<Rightarrow> nat \<Rightarrow> nat \<Rightarrow> world \<Rightarrow> bool \<times> world" where
  "kill_poll alive i 0 w = (False, w)"
| "kill_poll alive i (Suc k) w =
     (let w1 = emit w (Usleep 100000)
      in if \<not> alive i then (True, w1) else kill_poll alive (Suc i) k w1)"

definition cmd_kill :: "kill_env \<Rightarrow> world \<Rightarrow> string \<Rightarrow> outcome \<times> world" where
  "cmd_kill e w nm =
     (if \<not> valid_session_name nm then
        (Return 1, emit w (Stderr (''Invalid session name '' @ sq @ nm @ sq @ nl)))
      else if ke_pid e \<le> 0 \<or> \<not> ke_alive e 0 then
        (Return 1,
         emit (cleanup_session_files w nm)
           (Stderr (''Session '' @ sq @ nm @ sq @ '' not found or already dead.'' @ nl)))
      else
        (let (died, w2) = kill_poll (ke_alive e) 1 10 (emit w (Kill (ke_pid e) SIGTERM))
         in if died then
              (Return 0,
               emit (cleanup_session_files w2 nm)
                 (Stdout (''Session '' @ sq @ nm @ sq @ '' killed.'' @ nl)))
            else
              (Return 0,
               emit (cleanup_session_files
                       (emit (emit w2 (Kill (ke_pid e) SIGKILL)) (Usleep 100000)) nm)
                 (Stdout (''Session '' @ sq @ nm @ sq @ '' killed (SIGKILL).'' @ nl)))))"

section \<open>Notions and a sample session for the attach client\<close>

text \<open>What has been written to a descriptor so far; nothing for a descriptor that is not open.\<close>

definition fd_out :: "world \<Rightarrow> int \<Rightarrow> byte list" where
  "fd_out w fd = (case map_of (conns w) fd of None \<Rightarrow> [] | Some c \<Rightarrow> out c)"

text \<open>
  A session in which the daemon has an \<^verbatim>\<open>EXIT\<close> frame with a payload of three bytes ready and
  the terminal has a chunk of three bytes ready whose second byte is the detach key. The
  client either finds standard input readable in its first pass, or the socket. The other
  definitions are the state and the worlds that \<^verbatim>\<open>cmd_attach\<close> goes through: at the entry of
  its loop, after the \<^verbatim>\<open>read\<close> from standard input, and after the frame has been received.
\<close>

definition att_conn :: conn where
  "att_conn = \<lparr>rd = [Chunk [4, 0, 0, 0, 3, 42, 1, 2]], wr = [Wrote 5, Wrote 4, Wrote 5], out = []\<rparr>"

definition att_world :: world where
  "att_world = \<lparr>conns = [(0, \<lparr>rd = [Chunk [97, 28, 98]], wr = [], out = []\<rparr>), (1, no_conn),
                          (2, no_conn)],
                 trace = [], self_pid = 60, uid = 0\<rparr>"

definition att_ev :: "bool \<Rightarrow> client_ev" where
  "att_ev from_stdin = \<lparr>ce_winch = False, ce_poll = PollOk, ce_stdin_in = from_stdin,
       ce_sock_in = \<not> from_stdin, ce_sock_hup = False, ce_winsize = None, ce_malloc = True\<rparr>"

definition att_env :: "bool \<Rightarrow> attach_env" where
  "att_env from_stdin = \<lparr>ae_sun_path = 108, ae_socket_ok = True, ae_connect = Some att_conn,
       ae_winsize = None, ae_isatty = True, ae_tcgetattr_ok = True,
       ae_events = [att_ev from_stdin]\<rparr>"

definition att_cs0 :: client_state where
  "att_cs0 = \<lparr>cl_running = True, exit_code = 0, got_winch = False, termios_saved = True\<rparr>"

definition att_trace0 :: "effect list" where
  "att_trace0 = [SignalIgnore SIGPIPE, SendMsg 3 MSG_HELLO [0, 80, 0, 24] True, Atexit,
                 Tcsetattr True, SignalHandle SIGWINCH]"

definition att_w0 :: world where
  "att_w0 = \<lparr>conns = [(0, \<lparr>rd = [Chunk [97, 28, 98]], wr = [], out = []\<rparr>), (1, no_conn),
                       (2, no_conn),
                       (3, \<lparr>rd = [Chunk [4, 0, 0, 0, 3, 42, 1, 2]], wr = [Wrote 5],
                            out = [5, 0, 0, 0, 4, 0, 80, 0, 24]\<rparr>)],
              trace = att_trace0, self_pid = 60, uid = 0\<rparr>"

definition att_w_read :: world where
  "att_w_read = \<lparr>conns = [(0, no_conn), (1, no_conn), (2, no_conn),
                       (3, \<lparr>rd = [Chunk [4, 0, 0, 0, 3, 42, 1, 2]], wr = [Wrote 5],
                            out = [5, 0, 0, 0, 4, 0, 80, 0, 24]\<rparr>)],
              trace = att_trace0, self_pid = 60, uid = 0\<rparr>"

definition att_w_recv :: world where
  "att_w_recv = \<lparr>conns = [(0, \<lparr>rd = [Chunk [97, 28, 98]], wr = [], out = []\<rparr>), (1, no_conn),
                       (2, no_conn),
                       (3, \<lparr>rd = [], wr = [Wrote 5], out = [5, 0, 0, 0, 4, 0, 80, 0, 24]\<rparr>)],
              trace = att_trace0, self_pid = 60, uid = 0\<rparr>"

text \<open>
  A session in which the daemon's stream holds an \<^verbatim>\<open>EXIT\<close> frame that declares 1048577 bytes,
  one more than \<^verbatim>\<open>recv_msg\<close> takes, with a payload that begins with the byte 42; the client
  finds the socket readable in its first pass.
\<close>

definition att_big_payload :: "byte list" where
  "att_big_payload = 42 # replicate 1048576 0"

definition att_big_conn :: "byte list \<Rightarrow> conn" where
  "att_big_conn p = \<lparr>rd = [Chunk (msg_header MSG_EXIT 1048577), Chunk p],
                      wr = [Wrote 5, Wrote 4], out = []\<rparr>"

definition att_big_env :: "byte list \<Rightarrow> attach_env" where
  "att_big_env p = (att_env False)\<lparr>ae_connect := Some (att_big_conn p)\<rparr>"

section \<open>Properties of the frame codec\<close>

lemma ff_mask: "(0xFF :: 32 word) = mask 8"
  by (simp add: mask_eq_exp_minus_1)

lemma write_all_True: "write_all s bs = (True, w, s') \<Longrightarrow> w = bs"
proof (induction s bs arbitrary: w s' rule: write_all.induct)
  case (3 n s b bs)
  then show ?case
    by (auto simp: Let_def split: prod.splits)
qed (auto split: if_splits)

lemma conn_write_all_True: "conn_write_all c bs = (True, c') \<Longrightarrow> out c' = out c @ bs"
  by (auto simp: conn_write_all_def split: prod.splits dest: write_all_True)

lemma send_msg_True:
  assumes "send_msg c t data len = (True, c')"
  shows "out c' = out c @ msg_header t len @ take (unat len) data"
proof -
  obtain ok1 c1 where h: "conn_write_all c (msg_header t len) = (ok1, c1)" by force
  show ?thesis
  proof (cases "len > 0")
    case True
    obtain ok2 c2 where p: "conn_write_all c1 (take (unat len) data) = (ok2, c2)" by force
    from assms h p True have "ok1" "ok2" "c' = c2"
      by (auto simp: send_msg_def split: if_splits)
    with h p show ?thesis
      by (auto dest!: conn_write_all_True)
  next
    case False
    then have z: "len = 0" by (simp add: word_greater_zero_iff)
    from assms h z have "ok1" "c' = c1" by (auto simp: send_msg_def split: if_splits)
    with h z show ?thesis by (auto dest!: conn_write_all_True)
  qed
qed

lemma read_all_Some:
  "read_all s n = (Some bs, s') \<Longrightarrow> length bs = n \<and> rd_bytes s = bs @ rd_bytes s'"
proof (induction s n arbitrary: bs s' rule: read_all.induct)
  case (3 cs s n)
  show ?case
  proof (cases "length cs \<le> Suc n")
    case True
    with "3.prems" have ne: "cs \<noteq> []" by (auto split: if_splits)
    obtain r s1 where rec: "read_all s (Suc n - length cs) = (r, s1)" by force
    with "3.prems" ne True obtain r' where r: "r = Some r'" "bs = cs @ r'" "s' = s1"
      by (cases r) auto
    from "3.IH"[OF ne True] rec r have "length r' = Suc n - length cs \<and> rd_bytes s = r' @ rd_bytes s1"
      by simp
    with r True show ?thesis by simp
  next
    case False
    with "3.prems" have "bs = take (Suc n) cs" "s' = Chunk (drop (Suc n) cs) # s"
      by (auto split: if_splits)
    with False show ?thesis by simp
  qed
qed simp_all

lemma header_byte:
  "unat (ucast (drop_bit k (len :: 32 word) AND 0xFF) :: 8 word) = unat len div 2 ^ k mod 256"
proof -
  have "unat (ucast (take_bit 8 (drop_bit k len)) :: 8 word)
          = take_bit 8 (unat (take_bit 8 (drop_bit k len)))"
    by (simp add: unsigned_ucast_eq)
  also have "\<dots> = take_bit 8 (unat (drop_bit k len))"
    by (simp add: unsigned_take_bit_eq)
  also have "\<dots> = take_bit 8 (drop_bit k (unat len))"
    by (simp only: unat_drop_bit_eq)
  also have "\<dots> = unat len div 2 ^ k mod 256"
    by (simp add: take_bit_eq_mod drop_bit_eq_div)
  finally show ?thesis
    by (simp add: ff_mask flip: take_bit_eq_mask)
qed

lemma base256_combine:
  fixes n q1 q2 q3 a0 a1 a2 :: nat
  assumes "n = 256 * q1 + a0" "q1 = 256 * q2 + a1" "q2 = 256 * q3 + a2"
  shows "n = 16777216 * q3 + 65536 * a2 + 256 * a1 + a0"
  using assms by simp

lemma base256_digits:
  fixes n :: nat
  assumes "n < 4294967296"
  shows "n = 16777216 * (n div 16777216 mod 256) + 65536 * (n div 65536 mod 256)
             + 256 * (n div 256 mod 256) + n mod 256"
proof -
  have d2: "n div 256 div 256 = n div 65536" by (simp add: div_mult2_eq)
  have d3: "n div 65536 div 256 = n div 16777216" by (simp add: div_mult2_eq)
  have e1: "n = 256 * (n div 256) + n mod 256" by simp
  have e2: "n div 256 = 256 * (n div 65536) + n div 256 mod 256"
    using div_mult_mod_eq[of "n div 256" 256] unfolding d2 by simp
  have e3: "n div 65536 = 256 * (n div 16777216) + n div 65536 mod 256"
    using div_mult_mod_eq[of "n div 65536" 256] unfolding d3 by simp
  have "n div 16777216 < 256"
    using assms by (simp add: less_mult_imp_div_less)
  then have m3: "n div 16777216 mod 256 = n div 16777216" by simp
  show ?thesis
    unfolding m3 by (rule base256_combine[OF e1 e2 e3])
qed

lemma header_bytes:
  "unat len = 16777216 * unat (msg_header t len ! 1) + 65536 * unat (msg_header t len ! 2)
     + 256 * unat (msg_header t len ! 3) + unat (msg_header t len ! 4)"
proof -
  have lt: "unat len < 4294967296" using unsigned_less[of len, where 'a=nat] by simp
  have b4: "msg_header t len ! 4 = ucast (drop_bit 0 len AND 0xFF)" by (simp add: msg_header_def)
  have h1: "unat (msg_header t len ! 1) = unat len div 16777216 mod 256"
    using header_byte[of 24 len] by (simp add: msg_header_def)
  have h2: "unat (msg_header t len ! 2) = unat len div 65536 mod 256"
    using header_byte[of 16 len] by (simp add: msg_header_def)
  have h3: "unat (msg_header t len ! 3) = unat len div 256 mod 256"
    using header_byte[of 8 len] by (simp add: msg_header_def)
  have h4: "unat (msg_header t len ! 4) = unat len mod 256"
    unfolding b4 header_byte by simp
  show ?thesis
    unfolding h1 h2 h3 h4 by (rule base256_digits[OF lt])
qed


lemma decode_header: "decode_len (msg_header t len) = len"
proof -
  have "push_bit 24 (ucast (ucast (drop_bit 24 len AND mask 8 :: 32 word) :: 8 word) :: 32 word)
        OR push_bit 16 (ucast (ucast (drop_bit 16 len AND mask 8 :: 32 word) :: 8 word))
        OR push_bit 8 (ucast (ucast (drop_bit 8 len AND mask 8 :: 32 word) :: 8 word))
        OR ucast (ucast (len AND mask 8 :: 32 word) :: 8 word) = len"
  proof (rule bit_word_eqI)
    fix n assume "n < LENGTH(32)"
    then have n: "n < 32" by simp
    consider "n < 8" | "8 \<le> n" "n < 16" | "16 \<le> n" "n < 24" | "24 \<le> n" "n < 32"
      using n by linarith
    then show "bit (push_bit 24 (ucast (ucast (drop_bit 24 len AND mask 8 :: 32 word) :: 8 word) :: 32 word)
        OR push_bit 16 (ucast (ucast (drop_bit 16 len AND mask 8 :: 32 word) :: 8 word))
        OR push_bit 8 (ucast (ucast (drop_bit 8 len AND mask 8 :: 32 word) :: 8 word))
        OR ucast (ucast (len AND mask 8 :: 32 word) :: 8 word)) n = bit len n"
      by cases (auto simp add: bit_simps)
  qed
  then show ?thesis
    by (simp add: decode_len_def msg_header_def ff_mask)
qed

lemma length_msg_header: "length (msg_header t len) = 5"
  by (simp add: msg_header_def)

lemma msg_header_type: "msg_header t len ! 0 = t"
  by (simp add: msg_header_def)

lemma read_all_clean:
  "rd_clean s \<Longrightarrow> n \<le> length (rd_bytes s) \<Longrightarrow>
   \<exists>s'. read_all s n = (Some (take n (rd_bytes s)), s') \<and> rd_bytes s' = drop n (rd_bytes s) \<and> rd_clean s'"
proof (induction s n rule: read_all.induct)
  case (3 bs s n)
  show ?case
  proof (cases "length bs \<le> Suc n")
    case True
    with "3.prems" have ne: "bs \<noteq> []" and cl: "rd_clean s" and le: "Suc n - length bs \<le> length (rd_bytes s)"
      by auto
    from "3.IH"[OF ne True cl le] obtain s' where
      "read_all s (Suc n - length bs) = (Some (take (Suc n - length bs) (rd_bytes s)), s')"
      "rd_bytes s' = drop (Suc n - length bs) (rd_bytes s)" "rd_clean s'" by blast
    with True ne show ?thesis by simp
  next
    case False
    with "3.prems" show ?thesis by auto
  qed
qed auto

lemma recv_msg_frame:
  assumes cl: "rd_clean (rd p)"
      and bq: "rd_bytes (rd p) = msg_header t len @ data @ rest"
      and ln: "length data = unat len" and le: "len \<le> 1048576"
  shows "\<exists>p'. recv_msg True p = (Some (t, data, len), p') \<and> rd_bytes (rd p') = rest \<and> rd_clean (rd p')"
proof -
  have "5 \<le> length (rd_bytes (rd p))" using bq by (simp add: length_msg_header)
  from read_all_clean[OF cl this] obtain s1 where
    r1: "read_all (rd p) 5 = (Some (msg_header t len), s1)"
    and b1: "rd_bytes s1 = data @ rest" and c1: "rd_clean s1"
    using bq by (auto simp: length_msg_header)
  show ?thesis
  proof (cases "len = 0")
    case True
    with ln have "data = []" by simp
    with r1 b1 c1 True show ?thesis
      by (simp add: recv_msg_def decode_header msg_header_type)
  next
    case False
    have "unat len \<le> length (rd_bytes s1)" using b1 ln by simp
    from read_all_clean[OF c1 this] obtain s2 where
      r2: "read_all s1 (unat len) = (Some data, s2)" and b2: "rd_bytes s2 = rest" and c2: "rd_clean s2"
      using b1 ln by auto
    have "\<not> len > 1024 * 1024" using le by (simp add: not_less)
    with r1 r2 b2 c2 False show ?thesis
      by (simp add: recv_msg_def decode_header msg_header_type)
  qed
qed

lemma recv_msg_too_long:
  assumes bq: "rd_bytes (rd q) = msg_header t l @ rest" and gt: "1048576 < l"
  shows "fst (recv_msg m q) = None"
proof -
  obtain r s1 where r1: "read_all (rd q) 5 = (r, s1)" by force
  show ?thesis
  proof (cases r)
    case None
    with r1 show ?thesis by (simp add: recv_msg_def)
  next
    case (Some hdr)
    with r1 read_all_Some[of "rd q" 5 hdr s1] have "length hdr = 5" "rd_bytes (rd q) = hdr @ rd_bytes s1"
      by auto
    with bq have "hdr = msg_header t l"
      by (simp add: append_eq_append_conv length_msg_header)
    moreover have "l \<noteq> 0" using gt by auto
    ultimately show ?thesis
      using r1 Some gt by (simp add: recv_msg_def decode_header)
  qed
qed

text \<open>
  Claim C5. A frame that \<^verbatim>\<open>send_msg\<close> has written completely consists of the type tag,
  the payload length as four bytes with the most significant first, and the payload. When
  the payload has at most 1 MiB (1048576 bytes) and the peer's stream delivers these bytes,
  in whatever chunks and with whatever interruptions, \<^verbatim>\<open>recv_msg\<close> returns the same tag,
  the same payload and the same length, and leaves the rest of the stream. Whatever the
  stream, \<^verbatim>\<open>recv_msg\<close> fails on a header that declares more than 1 MiB.
\<close>

theorem send_recv_roundtrip:
  assumes ln: "length data = unat len" and le: "len \<le> 1048576"
      and sd: "send_msg c type data len = (True, c')"
      and cl: "rd_clean (rd p)"
      and bq: "rd_bytes (rd p) = drop (length (out c)) (out c') @ rest"
  shows "out c' = out c @ msg_header type len @ data \<and>
         unat len = 16777216 * unat (msg_header type len ! 1) + 65536 * unat (msg_header type len ! 2)
                      + 256 * unat (msg_header type len ! 3) + unat (msg_header type len ! 4) \<and>
         (\<exists>p'. recv_msg True p = (Some (type, data, len), p') \<and> rd_bytes (rd p') = rest) \<and>
         (\<forall>m q t l r. rd_bytes (rd q) = msg_header t l @ r \<and> 1048576 < l \<longrightarrow> fst (recv_msg m q) = None)"
proof -
  have o: "out c' = out c @ msg_header type len @ data"
    using send_msg_True[OF sd] ln by simp
  then have "rd_bytes (rd p) = msg_header type len @ data @ rest" using bq by simp
  from recv_msg_frame[OF cl this ln le] have "\<exists>p'. recv_msg True p = (Some (type, data, len), p') \<and> rd_bytes (rd p') = rest"
    by blast
  moreover have "\<forall>m q t l r. rd_bytes (rd q) = msg_header t l @ r \<and> 1048576 < l \<longrightarrow> fst (recv_msg m q) = None"
    using recv_msg_too_long by blast
  ultimately show ?thesis using o header_bytes[of len type] by blast
qed

theorem send_recv_roundtrip_witness:
  "length [7, 8, 9 :: byte] = unat (3 :: 32 word) \<and> (3 :: 32 word) \<le> 1048576
   \<and> send_msg \<lparr>rd = [], wr = [Wrote 2, WEintr, Wrote 9, WAgain 1, Wrote 1, Wrote 2], out = []\<rparr>
         MSG_DATA [7, 8, 9] 3
       = (True, \<lparr>rd = [], wr = [], out = [1, 0, 0, 0, 3, 7, 8, 9]\<rparr>)
   \<and> (\<exists>p'. recv_msg True
           \<lparr>rd = [Chunk [1, 0], REintr, Chunk [0, 0, 3, 7, 8], Chunk [9, 4, 0, 0, 0, 1, 0]],
              wr = [], out = []\<rparr>
         = (Some (MSG_DATA, [7, 8, 9], 3), p') \<and> rd_bytes (rd p') = [4, 0, 0, 0, 1, 0])
   \<and> fst (recv_msg True \<lparr>rd = [Chunk (msg_header MSG_DATA 1048577)], wr = [], out = []\<rparr>) = None"
proof -
  let ?c = "\<lparr>rd = [], wr = [Wrote 2, WEintr, Wrote 9, WAgain 1, Wrote 1, Wrote 2], out = []\<rparr>"
  let ?c' = "\<lparr>rd = [], wr = [], out = [1, 0, 0, 0, 3, 7, 8, 9]\<rparr> :: conn"
  let ?p = "\<lparr>rd = [Chunk [1, 0], REintr, Chunk [0, 0, 3, 7, 8], Chunk [9, 4, 0, 0, 0, 1, 0]], wr = [], out = []\<rparr>"
  let ?q = "\<lparr>rd = [Chunk (msg_header MSG_DATA 1048577)], wr = [], out = []\<rparr>"
  have sd: "send_msg ?c MSG_DATA [7, 8, 9] 3 = (True, ?c')"
    by (simp add: send_msg_def conn_write_all_def msg_header_def MSG_DATA_def Let_def)
  have h: "length [7, 8, 9 :: byte] = unat (3 :: 32 word)" "(3 :: 32 word) \<le> 1048576"
    "rd_clean (rd ?p)" "rd_bytes (rd ?p) = drop (length (out ?c)) (out ?c') @ [4, 0, 0, 0, 1, 0]"
    by simp_all
  from send_recv_roundtrip[OF h(1) h(2) sd h(3) h(4)]
  have r: "\<exists>p'. recv_msg True ?p = (Some (MSG_DATA, [7, 8, 9], 3), p') \<and> rd_bytes (rd p') = [4, 0, 0, 0, 1, 0]"
   and a: "\<forall>m q t l r. rd_bytes (rd q) = msg_header t l @ r \<and> 1048576 < l \<longrightarrow> fst (recv_msg m q) = None"
    by blast+
  have "rd_bytes (rd ?q) = msg_header MSG_DATA 1048577 @ [] \<and> (1048576 :: 32 word) < 1048577"
    by simp
  with a have "fst (recv_msg True ?q) = None" by blast
  with r sd h(1) h(2) show ?thesis by blast
qed

section \<open>Properties of the client table and of the handlers\<close>


lemma swap_remove_mset:
  assumes "i < length xs"
  shows "mset (butlast (xs[i := last xs])) = mset xs - {# xs ! i #}"
proof -
  let ?ys = "xs[i := last xs]"
  have ne: "?ys \<noteq> []" using assms by auto
  have l: "last ?ys = last xs"
    using assms by (cases "xs = []") (simp_all add: last_list_update)
  have "mset ?ys = mset (butlast ?ys) + {# last ?ys #}"
    using ne by (metis append_butlast_last_id mset.simps(1) mset.simps(2) mset_append add_mset_add_single)
  moreover have "mset ?ys = add_mset (last xs) (mset xs - {# xs ! i #})"
    using assms by (simp add: mset_update)
  ultimately show ?thesis using l by simp
qed

lemma clients_nth: "i < nat (num_clients srv) \<Longrightarrow> clients srv ! i = client_fds srv i"
  by (simp add: clients_def)

lemma length_clients: "length (clients srv) = nat (num_clients srv)"
  by (simp add: clients_def)

lemma remove_client_srv:
  "snd (server_remove_client (w, srv) idx) =
     srv\<lparr>client_fds := (client_fds srv)(nat idx := client_fds srv (nat (num_clients srv - 1))),
         num_clients := num_clients srv - 1\<rparr>"
  by (simp add: server_remove_client_def Let_def)

lemma remove_client_clients:
  assumes "0 \<le> idx" "idx < num_clients srv"
  shows "clients (snd (server_remove_client (w, srv) idx))
           = butlast ((clients srv)[nat idx := last (clients srv)])"
proof (rule nth_equalityI)
  show "length (clients (snd (server_remove_client (w, srv) idx)))
          = length (butlast ((clients srv)[nat idx := last (clients srv)]))"
    using assms by (simp add: remove_client_srv length_clients nat_diff_distrib)
next
  fix i assume "i < length (clients (snd (server_remove_client (w, srv) idx)))"
  then have i: "i < nat (num_clients srv) - 1"
    using assms by (simp add: remove_client_srv length_clients nat_diff_distrib)
  have ne: "clients srv \<noteq> []" using assms by (auto simp: clients_def)
  have la: "last (clients srv) = client_fds srv (nat (num_clients srv - 1))"
    using assms ne by (simp add: last_conv_nth length_clients clients_nth nat_diff_distrib)
  show "clients (snd (server_remove_client (w, srv) idx)) ! i
          = butlast ((clients srv)[nat idx := last (clients srv)]) ! i"
    using i assms la
    by (simp add: remove_client_srv clients_def nth_butlast nat_diff_distrib nth_list_update)
qed

text \<open>
  Claim C10. \<^verbatim>\<open>server_remove_client\<close> at the index of an attached client writes the last
  descriptor of the table into that slot and decrements the count. The table afterwards
  holds the descriptors it held before without the removed one (as a multiset). The last
  descriptor now stands in the freed slot, so for distinct descriptors and a slot that is
  not among the last two, the table differs from the old one with the removed entry cut
  out: the relative order of the remaining descriptors is not preserved.
\<close>

theorem server_remove_client_swap:
  assumes "0 \<le> idx" and "idx < num_clients srv"
  shows "num_clients (snd (server_remove_client (w, srv) idx)) = num_clients srv - 1 \<and>
         clients (snd (server_remove_client (w, srv) idx))
           = butlast ((clients srv)[nat idx := last (clients srv)]) \<and>
         mset (clients (snd (server_remove_client (w, srv) idx)))
           = mset (clients srv) - {# clients srv ! nat idx #} \<and>
         (idx < num_clients srv - 1 \<longrightarrow>
            clients (snd (server_remove_client (w, srv) idx)) ! nat idx = last (clients srv)) \<and>
         (idx + 2 < num_clients srv \<and> distinct (clients srv) \<longrightarrow>
            clients (snd (server_remove_client (w, srv) idx))
              \<noteq> take (nat idx) (clients srv) @ drop (Suc (nat idx)) (clients srv))"
proof -
  let ?cs = "clients srv" and ?cs' = "clients (snd (server_remove_client (w, srv) idx))"
  have i: "nat idx < length ?cs" using assms by (simp add: length_clients)
  have eq: "?cs' = butlast (?cs[nat idx := last ?cs])"
    by (rule remove_client_clients[OF assms])
  have m: "mset ?cs' = mset ?cs - {# ?cs ! nat idx #}"
    unfolding eq by (rule swap_remove_mset[OF i])
  have mv: "?cs' ! nat idx = last ?cs" if "idx < num_clients srv - 1"
    unfolding eq using that assms i by (simp add: nth_butlast length_clients)
  have ord: "?cs' \<noteq> take (nat idx) ?cs @ drop (Suc (nat idx)) ?cs"
    if "idx + 2 < num_clients srv" and d: "distinct ?cs"
  proof
    assume e: "?cs' = take (nat idx) ?cs @ drop (Suc (nat idx)) ?cs"
    have lt: "Suc (nat idx) < length ?cs" "nat idx < length ?cs - 1"
      using that assms by (simp_all add: length_clients)
    have "?cs' ! nat idx = last ?cs" using mv that by simp
    moreover have "(take (nat idx) ?cs @ drop (Suc (nat idx)) ?cs) ! nat idx = ?cs ! Suc (nat idx)"
      using lt by (simp add: nth_append)
    moreover have "last ?cs = ?cs ! (length ?cs - 1)"
      using lt by (intro last_conv_nth) auto
    ultimately have "?cs ! Suc (nat idx) = ?cs ! (length ?cs - 1)"
      using e by simp
    with d lt have "Suc (nat idx) = length ?cs - 1"
      by (simp add: nth_eq_iff_index_eq)
    with that assms show False by (simp add: length_clients)
  qed
  show ?thesis
    using eq m mv ord by (simp add: remove_client_srv)
qed

theorem server_remove_client_swap_witness:
  "clients (snd (server_remove_client
      (\<lparr>conns = [], trace = [], self_pid = 1, uid = 0\<rparr>,
       \<lparr>name = ''s'', command = ''bash'', pty_master = 3, child_pid = 9, listen_fd = 4,
         client_fds = (\<lambda>i. 5 + int i), num_clients = 3, created = 0, child_exit_code = 0,
         running = True\<rparr>) 0)) = [7, 6]"
proof -
  let ?w = "\<lparr>conns = [], trace = [], self_pid = 1, uid = 0\<rparr>"
  let ?srv = "\<lparr>name = ''s'', command = ''bash'', pty_master = 3, child_pid = 9, listen_fd = 4,
         client_fds = (\<lambda>i. 5 + int i), num_clients = 3, created = 0, child_exit_code = 0,
         running = True\<rparr>"
  have c: "clients ?srv = [5, 6, 7]"
    by (simp add: clients_def upt_rec)
  have "(0::int) \<le> 0" "0 < num_clients ?srv" by simp_all
  from server_remove_client_swap[OF this, of ?w] c show ?thesis
    by simp
qed

text \<open>
  Claim C7. When the handler of \<^verbatim>\<open>SIGCHLD\<close> runs while the child is not yet reaped and its
  \<^verbatim>\<open>waitpid\<close> reaps the child, the stored exit code is the exit status of a child that
  exited and 128 plus the signal number of a child that was killed by a signal; the slot
  of the child's process id is set to -1 and the running flag is cleared.
\<close>

theorem server_sigchld_reaps:
  assumes "0 < child_pid srv"
  shows "child_pid (snd (server_sigchld (WaitReaped st) (w, srv))) = - 1 \<and>
         \<not> running (snd (server_sigchld (WaitReaped st) (w, srv))) \<and>
         (\<forall>c. st = WExited c \<longrightarrow> child_exit_code (snd (server_sigchld (WaitReaped st) (w, srv))) = c) \<and>
         (\<forall>sg. st = WSignaled sg \<longrightarrow>
            child_exit_code (snd (server_sigchld (WaitReaped st) (w, srv))) = 128 + sg)"
  using assms by (cases st) (simp_all add: server_sigchld_def Let_def)

theorem server_sigchld_reaps_witness:
  "child_exit_code (snd (server_sigchld (WaitReaped (WSignaled 9))
      (\<lparr>conns = [], trace = [], self_pid = 1, uid = 0\<rparr>,
       \<lparr>name = ''s'', command = ''bash'', pty_master = 3, child_pid = 9, listen_fd = 4,
         client_fds = (\<lambda>i. 0), num_clients = 0, created = 0, child_exit_code = 0,
         running = True\<rparr>))) = 137"
proof -
  let ?srv = "\<lparr>name = ''s'', command = ''bash'', pty_master = 3, child_pid = 9, listen_fd = 4,
         client_fds = (\<lambda>i. 0), num_clients = 0, created = 0, child_exit_code = 0,
         running = True\<rparr>"
  have "0 < child_pid ?srv" by simp
  from server_sigchld_reaps[OF this, of "WSignaled 9"] show ?thesis by simp
qed

section \<open>Properties of the descriptor table\<close>

lemma sends_append: "sends (a @ b) = sends a @ sends b"
  by (induction a rule: sends.induct) simp_all

lemma closes_append: "closes (a @ b) = closes a @ closes b"
  by (induction a rule: closes.induct) simp_all

lemma info_counts_append: "info_counts (a @ b) = info_counts a @ info_counts b"
  by (induction a rule: info_counts.induct) simp_all

lemma emit_simps:
  "conns (emit w e) = conns w" "trace (emit w e) = trace w @ [e]"
  "uid (emit w e) = uid w" "self_pid (emit w e) = self_pid w"
  "open_fds (emit w e) = open_fds w"
  by (simp_all add: emit_def open_fds_def)

lemma set_conn_simps:
  "trace (set_conn w fd c) = trace w" "uid (set_conn w fd c) = uid w"
  "self_pid (set_conn w fd c) = self_pid w"
  by (simp_all add: set_conn_def)

lemma open_fds_set_conn: "open_fds (set_conn w fd c) = open_fds w"
  by (simp add: set_conn_def open_fds_def comp_def cong: map_cong)

lemma map_of_set_conn_list:
  "map_of (map (\<lambda>p. if fst p = fd then (fd, c) else p) xs) fd' =
     (if fd' = fd then map_option (\<lambda>_. c) (map_of xs fd) else map_of xs fd')"
  by (induction xs) auto

lemma map_of_set_conn:
  "map_of (conns (set_conn w fd c)) fd' =
     (if fd' = fd then map_option (\<lambda>_. c) (map_of (conns w) fd) else map_of (conns w) fd')"
  by (simp add: set_conn_def map_of_set_conn_list)

lemma sys_close_simps:
  "trace (sys_close w fd) = trace w @ [Close fd]" "uid (sys_close w fd) = uid w"
  "self_pid (sys_close w fd) = self_pid w"
  "open_fds (sys_close w fd) = filter (\<lambda>x. x \<noteq> fd) (open_fds w)"
  by (simp_all add: sys_close_def emit_def open_fds_def filter_map comp_def)

lemma map_of_filter_fd:
  "map_of (filter (\<lambda>p. fst p \<noteq> fd) xs) fd' = (if fd' = fd then None else map_of xs fd')"
  by (induction xs) auto

lemma map_of_sys_close:
  "map_of (conns (sys_close w fd)) fd' = (if fd' = fd then None else map_of (conns w) fd')"
  by (simp add: sys_close_def emit_def map_of_filter_fd)

lemma map_of_open: "map_of (conns w) fd = None \<longleftrightarrow> fd \<notin> set (open_fds w)"
  by (simp add: open_fds_def map_of_eq_None_iff)

lemma lowest_free_notin: "lowest_free used \<notin> set used"
proof (cases "List.find (\<lambda>n. n \<notin> set used) (map int [0 ..< Suc (length used)])")
  case (Some n)
  then have "n \<notin> set used"
    by (auto simp: find_Some_iff)
  with Some show ?thesis
    by (simp add: lowest_free_def)
next
  case None
  then have sub: "set (map int [0 ..< Suc (length used)]) \<subseteq> set used"
    by (auto simp: find_None_iff)
  have "distinct (map int [0 ..< Suc (length used)])"
    unfolding distinct_map by (intro conjI distinct_upt inj_onI) simp
  then have "card (set (map int [0 ..< Suc (length used)])) = length (map int [0 ..< Suc (length used)])"
    by (rule distinct_card)
  then have "card (set (map int [0 ..< Suc (length used)])) = Suc (length used)"
    by (simp only: length_map length_upt diff_zero)
  moreover have "card (set (map int [0 ..< Suc (length used)])) \<le> card (set used)"
    by (rule card_mono[OF _ sub]) simp
  moreover have "card (set used) \<le> length used"
    by (rule card_length)
  ultimately show ?thesis by simp
qed

lemma sys_open_simps:
  "fst (sys_open w c) = lowest_free (open_fds w)"
  "trace (snd (sys_open w c)) = trace w" "uid (snd (sys_open w c)) = uid w"
  "self_pid (snd (sys_open w c)) = self_pid w"
  "open_fds (snd (sys_open w c)) = open_fds w @ [lowest_free (open_fds w)]"
  by (simp_all add: sys_open_def Let_def open_fds_def)

lemma sys_open_notin: "fst (sys_open w c) \<notin> set (open_fds w)"
  by (simp add: sys_open_simps lowest_free_notin)

lemma map_of_sys_open:
  "map_of (conns (snd (sys_open w c))) fd =
     (if fd = lowest_free (open_fds w) then Some c else map_of (conns w) fd)"
proof -
  have "map_of (conns w) (lowest_free (open_fds w)) = None"
    using lowest_free_notin[of "open_fds w"] by (simp add: map_of_open)
  then show ?thesis
    by (cases "map_of (conns w) fd") (auto simp: sys_open_def Let_def map_add_def)
qed

lemma send_msg_fd_fst: "fst (send_msg_fd w fd t d l) = fd_send_ok w t d l fd"
  by (simp add: send_msg_fd_def fd_send_ok_def split: option.splits prod.splits)

lemma send_msg_fd_simps:
  "trace (snd (send_msg_fd w fd t d l)) = trace w @ [SendMsg fd t (take (unat l) d) (fd_send_ok w t d l fd)]"
  "uid (snd (send_msg_fd w fd t d l)) = uid w"
  "self_pid (snd (send_msg_fd w fd t d l)) = self_pid w"
  "open_fds (snd (send_msg_fd w fd t d l)) = open_fds w"
  by (simp_all add: send_msg_fd_def fd_send_ok_def emit_simps set_conn_simps open_fds_set_conn
      split: option.splits prod.splits)

lemma map_of_send_msg_fd:
  "map_of (conns (snd (send_msg_fd w fd t d l))) fd' =
     (if fd' = fd then map_option (\<lambda>c. snd (send_msg c t d l)) (map_of (conns w) fd)
      else map_of (conns w) fd')"
  by (simp add: send_msg_fd_def emit_simps map_of_set_conn split: option.splits prod.splits)

lemma recv_msg_fd_simps:
  "trace (snd (recv_msg_fd m w fd)) = trace w"
  "uid (snd (recv_msg_fd m w fd)) = uid w"
  "self_pid (snd (recv_msg_fd m w fd)) = self_pid w"
  "open_fds (snd (recv_msg_fd m w fd)) = open_fds w"
  by (simp_all add: recv_msg_fd_def set_conn_simps open_fds_set_conn split: option.splits prod.splits)

lemma write_all_fd_simps:
  "trace (snd (write_all_fd w fd bs)) = trace w"
  "uid (snd (write_all_fd w fd bs)) = uid w"
  "self_pid (snd (write_all_fd w fd bs)) = self_pid w"
  "open_fds (snd (write_all_fd w fd bs)) = open_fds w"
  by (simp_all add: write_all_fd_def set_conn_simps open_fds_set_conn split: option.splits prod.splits)

lemma read_fd_simps:
  "trace (snd (read_fd w fd n)) = trace w"
  "uid (snd (read_fd w fd n)) = uid w"
  "self_pid (snd (read_fd w fd n)) = self_pid w"
  "open_fds (snd (read_fd w fd n)) = open_fds w"
  by (simp_all add: read_fd_def set_conn_simps open_fds_set_conn split: option.splits prod.splits)

lemma write_info_file_simps:
  "trace (write_info_file w path p n cr cmd) = trace w @ [WriteInfo path p n cr cmd]"
  "uid (write_info_file w path p n cr cmd) = uid w"
  "self_pid (write_info_file w path p n cr cmd) = self_pid w"
  "open_fds (write_info_file w path p n cr cmd) = open_fds w"
  "conns (write_info_file w path p n cr cmd) = conns w"
  by (simp_all add: write_info_file_def emit_simps)

section \<open>Properties of the broadcast\<close>

lemma remove_client_world:
  "fst (server_remove_client (w, srv) idx) =
     write_info_file (sys_close w (client_fds srv (nat idx))) (info_path (uid w) (name srv))
       (self_pid w) (num_clients srv - 1) (created srv) (command srv)"
  by (simp add: server_remove_client_def Let_def sys_close_simps)

lemma broadcast_one_ok:
  assumes "fd_send_ok w t d l (client_fds srv i)"
  shows "broadcast_one t d l i (w, srv) = (snd (send_msg_fd w (client_fds srv i) t d l), srv)"
  using assms send_msg_fd_fst[of w "client_fds srv i" t d l]
  by (simp add: broadcast_one_def split_beta)

lemma broadcast_one_fail:
  assumes "\<not> fd_send_ok w t d l (client_fds srv i)"
  shows "broadcast_one t d l i (w, srv) =
           server_remove_client (snd (send_msg_fd w (client_fds srv i) t d l), srv) (int i)"
  using assms send_msg_fd_fst[of w "client_fds srv i" t d l]
  by (simp add: broadcast_one_def split_beta)

lemma broadcast_one_srv:
  "snd (broadcast_one t d l i (w, srv)) =
     (if fd_send_ok w t d l (client_fds srv i) then srv
      else srv\<lparr>client_fds := (client_fds srv)(i := client_fds srv (nat (num_clients srv - 1))),
               num_clients := num_clients srv - 1\<rparr>)"
  by (simp add: broadcast_one_ok broadcast_one_fail remove_client_srv)

lemma broadcast_one_trace:
  "trace (fst (broadcast_one t d l i (w, srv))) =
     trace w @ SendMsg (client_fds srv i) t (take (unat l) d) (fd_send_ok w t d l (client_fds srv i))
       # (if fd_send_ok w t d l (client_fds srv i) then []
          else [Close (client_fds srv i),
                WriteInfo (info_path (uid w) (name srv)) (self_pid w) (num_clients srv - 1)
                  (created srv) (command srv)])"
  by (simp add: broadcast_one_ok broadcast_one_fail remove_client_world send_msg_fd_simps
      write_info_file_simps sys_close_simps)

lemma broadcast_one_ids:
  "uid (fst (broadcast_one t d l i (w, srv))) = uid w"
  "self_pid (fst (broadcast_one t d l i (w, srv))) = self_pid w"
  by (cases "fd_send_ok w t d l (client_fds srv i)";
      simp add: broadcast_one_ok broadcast_one_fail remove_client_world send_msg_fd_simps
      write_info_file_simps sys_close_simps)+

lemma broadcast_one_open:
  "open_fds (fst (broadcast_one t d l i (w, srv))) =
     (if fd_send_ok w t d l (client_fds srv i) then open_fds w
      else filter (\<lambda>x. x \<noteq> client_fds srv i) (open_fds w))"
  by (simp add: broadcast_one_ok broadcast_one_fail remove_client_world send_msg_fd_simps
      write_info_file_simps sys_close_simps)

lemma broadcast_one_conns:
  "map_of (conns (fst (broadcast_one t d l i (w, srv)))) fd =
     (if fd = client_fds srv i then
        (if fd_send_ok w t d l fd then map_option (\<lambda>c. snd (send_msg c t d l)) (map_of (conns w) fd)
         else None)
      else map_of (conns w) fd)"
  by (simp add: broadcast_one_ok broadcast_one_fail remove_client_world map_of_send_msg_fd
      write_info_file_simps map_of_sys_close)

lemma broadcast_one_send_ok:
  "fd \<noteq> client_fds srv i \<Longrightarrow>
   fd_send_ok (fst (broadcast_one t d l i (w, srv))) t d l fd = fd_send_ok w t d l fd"
  by (simp add: fd_send_ok_def broadcast_one_conns)

lemma broadcast_one_slots:
  "j < i \<Longrightarrow> client_fds (snd (broadcast_one t d l i (w, srv))) j = client_fds srv j"
  by (simp add: broadcast_one_srv)

lemma broadcast_from_sends:
  "sends (trace (fst (broadcast_from k t d l (w, srv)))) =
     sends (trace w) @ map (\<lambda>fd. (fd, t)) (rev (map (client_fds srv) [0 ..< k]))"
proof (induction k arbitrary: w srv)
  case 0
  show ?case by simp
next
  case (Suc k)
  obtain w1 srv1 where s: "broadcast_one t d l k (w, srv) = (w1, srv1)" by force
  have t1: "sends (trace w1) = sends (trace w) @ [(client_fds srv k, t)]"
    using broadcast_one_trace[of t d l k w srv] s by (simp add: sends_append)
  have sl: "map (client_fds srv1) [0 ..< k] = map (client_fds srv) [0 ..< k]"
    using broadcast_one_slots[of _ k t d l w srv] s by simp
  show ?case
    using Suc.IH[of w1 srv1] s t1 sl by simp
qed

lemma broadcast_from_conns:
  assumes "distinct (map (client_fds srv) [0 ..< k])"
  shows "map_of (conns (fst (broadcast_from k t d l (w, srv)))) fd =
     (if fd \<in> set (map (client_fds srv) [0 ..< k]) then
        (if fd_send_ok w t d l fd then map_option (\<lambda>c. snd (send_msg c t d l)) (map_of (conns w) fd)
         else None)
      else map_of (conns w) fd)"
  using assms
proof (induction k arbitrary: w srv)
  case 0
  show ?case by simp
next
  case (Suc k)
  obtain w1 srv1 where s: "broadcast_one t d l k (w, srv) = (w1, srv1)" by force
  have sl: "map (client_fds srv1) [0 ..< k] = map (client_fds srv) [0 ..< k]"
    using broadcast_one_slots[of _ k t d l w srv] s by simp
  have d: "distinct (map (client_fds srv) [0 ..< k])"
    and nk: "client_fds srv k \<notin> set (map (client_fds srv) [0 ..< k])"
    using Suc.prems by auto
  have ih: "map_of (conns (fst (broadcast_from k t d l (w1, srv1)))) fd =
     (if fd \<in> set (map (client_fds srv) [0 ..< k]) then
        (if fd_send_ok w1 t d l fd then map_option (\<lambda>c. snd (send_msg c t d l)) (map_of (conns w1) fd)
         else None)
      else map_of (conns w1) fd)"
    using Suc.IH[of srv1 w1] d sl by simp
  have c1: "map_of (conns w1) fd =
     (if fd = client_fds srv k then
        (if fd_send_ok w t d l fd then map_option (\<lambda>c. snd (send_msg c t d l)) (map_of (conns w) fd)
         else None)
      else map_of (conns w) fd)"
    using broadcast_one_conns[of t d l k w srv fd] s by simp
  have o1: "fd \<noteq> client_fds srv k \<Longrightarrow> fd_send_ok w1 t d l fd = fd_send_ok w t d l fd"
    using broadcast_one_send_ok[of fd srv k t d l w] s by simp
  show ?case
  proof (cases "fd = client_fds srv k")
    case True
    with nk ih c1 s show ?thesis by simp
  next
    case False
    with ih c1 o1 s show ?thesis by simp
  qed
qed


lemma swap_tail_mset:
  assumes "k < n"
  shows "mset (map (f(k := f (n - 1))) [k ..< n - 1]) = mset (map f [Suc k ..< n])"
proof (cases "k = n - 1")
  case True
  with assms show ?thesis by simp
next
  case False
  with assms have lt: "k < n - 1" by simp
  then have a: "[k ..< n - 1] = k # [Suc k ..< n - 1]"
    by (simp add: upt_conv_Cons)
  have b: "[Suc k ..< n] = [Suc k ..< n - 1] @ [n - 1]"
    using lt upt_Suc_append[of "Suc k" "n - 1"] by simp
  have c: "map (f(k := f (n - 1))) [Suc k ..< n - 1] = map f [Suc k ..< n - 1]"
    by (rule map_cong) auto
  show ?thesis
    unfolding a b using c by simp
qed

lemma broadcast_from_table:
  assumes "int k \<le> num_clients srv" and "distinct (map (client_fds srv) [0 ..< k])"
  shows "mset (clients (snd (broadcast_from k t d l (w, srv)))) =
           mset (filter (fd_send_ok w t d l) (map (client_fds srv) [0 ..< k]))
             + mset (map (client_fds srv) [k ..< nat (num_clients srv)]) \<and>
         num_clients (snd (broadcast_from k t d l (w, srv))) =
           num_clients srv
             - int (length (filter (\<lambda>fd. \<not> fd_send_ok w t d l fd) (map (client_fds srv) [0 ..< k])))"
  using assms
proof (induction k arbitrary: w srv)
  case 0
  show ?case by (simp add: clients_def)
next
  case (Suc k)
  let ?f = "client_fds srv" and ?n = "nat (num_clients srv)"
  let ?pend = "map ?f [0 ..< k]"
  obtain w1 srv1 where s: "broadcast_one t d l k (w, srv) = (w1, srv1)" by force
  have kn: "k < ?n" using Suc.prems by simp
  have d: "distinct ?pend" and nk: "?f k \<notin> set ?pend"
    using Suc.prems by auto
  have sl: "map (client_fds srv1) [0 ..< k] = ?pend"
    using broadcast_one_slots[of _ k t d l w srv] s by simp
  have st: "fd_send_ok w1 t d l fd = fd_send_ok w t d l fd" if "fd \<in> set ?pend" for fd
  proof -
    from that nk have "fd \<noteq> ?f k" by blast
    from broadcast_one_send_ok[OF this, of t d l w] s show ?thesis by simp
  qed
  have ok1: "filter (fd_send_ok w1 t d l) ?pend = filter (fd_send_ok w t d l) ?pend"
    by (rule filter_cong[OF refl]) (rule st)
  have nok1: "filter (\<lambda>fd. \<not> fd_send_ok w1 t d l fd) ?pend = filter (\<lambda>fd. \<not> fd_send_ok w t d l fd) ?pend"
    by (rule filter_cong[OF refl]) (simp add: st)
  have s1: "srv1 = (if fd_send_ok w t d l (?f k) then srv
      else srv\<lparr>client_fds := ?f(k := ?f (nat (num_clients srv - 1))),
               num_clients := num_clients srv - 1\<rparr>)"
    using broadcast_one_srv[of t d l k w srv] s by simp
  show ?case
  proof (cases "fd_send_ok w t d l (?f k)")
    case True
    with s1 have e: "srv1 = srv" by simp
    have ih: "mset (clients (snd (broadcast_from k t d l (w1, srv)))) =
           mset (filter (fd_send_ok w1 t d l) ?pend) + mset (map ?f [k ..< ?n]) \<and>
         num_clients (snd (broadcast_from k t d l (w1, srv))) =
           num_clients srv - int (length (filter (\<lambda>fd. \<not> fd_send_ok w1 t d l fd) ?pend))"
      using Suc.IH[of srv w1] Suc.prems(1) d by simp
    have u: "map ?f [k ..< ?n] = ?f k # map ?f [Suc k ..< ?n]"
      using kn by (simp add: upt_conv_Cons)
    show ?thesis
      using ih s e True unfolding ok1 nok1 u by simp
  next
    case False
    with s1 have e: "srv1 = srv\<lparr>client_fds := ?f(k := ?f (nat (num_clients srv - 1))),
               num_clients := num_clients srv - 1\<rparr>" by simp
    have p1: "int k \<le> num_clients srv1" using Suc.prems(1) e by simp
    have d1: "distinct (map (client_fds srv1) [0 ..< k])" unfolding sl by (rule d)
    have n1: "nat (num_clients srv1) = ?n - 1" "num_clients srv1 = num_clients srv - 1"
      using e by (simp_all add: nat_diff_distrib)
    have nn: "nat (num_clients srv - 1) = ?n - 1" by arith
    have f1: "client_fds srv1 = ?f(k := ?f (?n - 1))"
      using e unfolding nn by simp
    have tl: "mset (map (client_fds srv1) [k ..< ?n - 1]) = mset (map ?f [Suc k ..< ?n])"
      unfolding f1 by (rule swap_tail_mset[OF kn])
    have ih: "mset (clients (snd (broadcast_from k t d l (w1, srv1)))) =
           mset (filter (fd_send_ok w1 t d l) ?pend) + mset (map (client_fds srv1) [k ..< ?n - 1]) \<and>
         num_clients (snd (broadcast_from k t d l (w1, srv1))) =
           num_clients srv - 1 - int (length (filter (\<lambda>fd. \<not> fd_send_ok w1 t d l fd) ?pend))"
      using Suc.IH[OF p1 d1, of w1] by (simp only: sl n1(2) nn)
    have up: "map ?f [0 ..< Suc k] = ?pend @ [?f k]" by simp
    have res: "broadcast_from (Suc k) t d l (w, srv) = broadcast_from k t d l (w1, srv1)"
      using s by simp
    show ?thesis
      unfolding res up using ih False unfolding ok1 nok1 tl by simp
  qed
qed

lemma broadcast_from_effects:
  assumes "distinct (map (client_fds srv) [0 ..< k])"
  shows "closes (trace (fst (broadcast_from k t d l (w, srv)))) =
           closes (trace w) @ filter (\<lambda>fd. \<not> fd_send_ok w t d l fd) (rev (map (client_fds srv) [0 ..< k])) \<and>
         info_counts (trace (fst (broadcast_from k t d l (w, srv)))) =
           info_counts (trace w) @
             map (\<lambda>j. num_clients srv - 1 - int j)
               [0 ..< length (filter (\<lambda>fd. \<not> fd_send_ok w t d l fd) (map (client_fds srv) [0 ..< k]))]"
  using assms
proof (induction k arbitrary: w srv)
  case 0
  show ?case by simp
next
  case (Suc k)
  let ?f = "client_fds srv"
  let ?pend = "map ?f [0 ..< k]"
  let ?bad = "\<lambda>w fd. \<not> fd_send_ok w t d l fd"
  obtain w1 srv1 where s: "broadcast_one t d l k (w, srv) = (w1, srv1)" by force
  have d: "distinct ?pend" and nk: "?f k \<notin> set ?pend"
    using Suc.prems by auto
  have sl: "map (client_fds srv1) [0 ..< k] = ?pend"
    using broadcast_one_slots[of _ k t d l w srv] s by simp
  have st: "fd_send_ok w1 t d l fd = fd_send_ok w t d l fd" if "fd \<in> set ?pend" for fd
  proof -
    from that nk have "fd \<noteq> ?f k" by blast
    from broadcast_one_send_ok[OF this, of t d l w] s show ?thesis by simp
  qed
  have nok1: "filter (?bad w1) ?pend = filter (?bad w) ?pend"
    by (rule filter_cong[OF refl]) (simp add: st)
  have nok2: "filter (?bad w1) (rev ?pend) = filter (?bad w) (rev ?pend)"
    by (rule filter_cong[OF refl]) (simp add: st)
  have d1: "distinct (map (client_fds srv1) [0 ..< k])" unfolding sl by (rule d)
  have ih: "closes (trace (fst (broadcast_from k t d l (w1, srv1)))) =
           closes (trace w1) @ filter (?bad w) (rev ?pend) \<and>
         info_counts (trace (fst (broadcast_from k t d l (w1, srv1)))) =
           info_counts (trace w1) @
             map (\<lambda>j. num_clients srv1 - 1 - int j) [0 ..< length (filter (?bad w) ?pend)]"
    using Suc.IH[OF d1, of w1] unfolding sl nok1 nok2 by simp
  have tr: "trace w1 =
     trace w @ SendMsg (?f k) t (take (unat l) d) (fd_send_ok w t d l (?f k))
       # (if fd_send_ok w t d l (?f k) then []
          else [Close (?f k),
                WriteInfo (info_path (uid w) (name srv)) (self_pid w) (num_clients srv - 1)
                  (created srv) (command srv)])"
    using broadcast_one_trace[of t d l k w srv] s by simp
  have s1: "num_clients srv1 = (if fd_send_ok w t d l (?f k) then num_clients srv else num_clients srv - 1)"
    using broadcast_one_srv[of t d l k w srv] s by simp
  define F where "F = length (filter (?bad w) ?pend)"
  have up: "map ?f [0 ..< Suc k] = ?pend @ [?f k]" by simp
  have res: "broadcast_from (Suc k) t d l (w, srv) = broadcast_from k t d l (w1, srv1)"
    using s by simp
  note ih' = ih[folded F_def]
  show ?case
  proof (cases "fd_send_ok w t d l (?f k)")
    case True
    have c: "closes (trace w1) = closes (trace w)" "info_counts (trace w1) = info_counts (trace w)"
      using tr True by (simp_all add: closes_append info_counts_append)
    have n: "num_clients srv1 = num_clients srv" using s1 True by simp
    have g: "filter (?bad w) (rev (?pend @ [?f k])) = filter (?bad w) (rev ?pend)"
            "length (filter (?bad w) (?pend @ [?f k])) = F"
      using True by (simp_all add: F_def)
    show ?thesis
      unfolding res up g using ih' unfolding c n by simp
  next
    case False
    have c: "closes (trace w1) = closes (trace w) @ [?f k]"
            "info_counts (trace w1) = info_counts (trace w) @ [num_clients srv - 1]"
      using tr False by (simp_all add: closes_append info_counts_append)
    have n: "num_clients srv1 = num_clients srv - 1" using s1 False by simp
    have g: "filter (?bad w) (rev (?pend @ [?f k])) = ?f k # filter (?bad w) (rev ?pend)"
            "length (filter (?bad w) (?pend @ [?f k])) = Suc F"
      using False by (simp_all add: F_def)
    have m: "map (\<lambda>j. num_clients srv - 1 - int j) [0 ..< Suc F]
             = (num_clients srv - 1) # map (\<lambda>j. num_clients srv - 1 - 1 - int j) [0 ..< F]"
      by (simp add: upt_conv_Cons map_Suc_upt[symmetric] del: upt_Suc)
    show ?thesis
      unfolding res up g m using ih' unfolding c n by simp
  qed
qed

lemma broadcast_from_fields:
  "snd (broadcast_from k t d l (w, srv)) =
     srv\<lparr>client_fds := client_fds (snd (broadcast_from k t d l (w, srv))),
         num_clients := num_clients (snd (broadcast_from k t d l (w, srv)))\<rparr>"
proof (induction k arbitrary: w srv)
  case 0
  show ?case by simp
next
  case (Suc k)
  obtain w1 srv1 where s: "broadcast_one t d l k (w, srv) = (w1, srv1)" by force
  have "srv1 = srv\<lparr>client_fds := client_fds srv1, num_clients := num_clients srv1\<rparr>"
    using broadcast_one_srv[of t d l k w srv] s by (auto split: if_splits)
  then show ?case
    using Suc.IH[of w1 srv1] s by (metis (no_types, lifting) ServerState.surjective ServerState.update_convs(6,7) broadcast_from.simps(2))
qed

lemma broadcast_from_ids:
  "uid (fst (broadcast_from k t d l (w, srv))) = uid w \<and>
   self_pid (fst (broadcast_from k t d l (w, srv))) = self_pid w"
proof (induction k arbitrary: w srv)
  case 0
  show ?case by simp
next
  case (Suc k)
  obtain w1 srv1 where s: "broadcast_one t d l k (w, srv) = (w1, srv1)" by force
  then show ?case
    using Suc.IH[of w1 srv1] broadcast_one_ids[of t d l k w srv] by simp
qed


lemma server_broadcast_sends:
  "sends (trace (fst (server_broadcast (w, srv) t d l))) =
     sends (trace w) @ map (\<lambda>fd. (fd, t)) (rev (clients srv))"
  by (simp add: server_broadcast_def broadcast_from_sends clients_def)

lemma server_broadcast_table:
  assumes "distinct (clients srv)"
  shows "mset (clients (snd (server_broadcast (w, srv) t d l))) =
           mset (filter (fd_send_ok w t d l) (clients srv)) \<and>
         num_clients (snd (server_broadcast (w, srv) t d l)) =
           num_clients srv - int (length (filter (\<lambda>fd. \<not> fd_send_ok w t d l fd) (clients srv)))"
proof (cases "0 \<le> num_clients srv")
  case True
  then have le: "int (nat (num_clients srv)) \<le> num_clients srv" by simp
  have d: "distinct (map (client_fds srv) [0 ..< nat (num_clients srv)])"
    using assms by (simp add: clients_def)
  note X = broadcast_from_table[OF le d, of t d l w]
  show ?thesis
    unfolding server_broadcast_def snd_conv clients_def[of srv] using X by simp
next
  case False
  then have "nat (num_clients srv) = 0" by simp
  then show ?thesis
    by (simp add: server_broadcast_def clients_def)
qed

lemma server_broadcast_conns:
  assumes "distinct (clients srv)"
  shows "map_of (conns (fst (server_broadcast (w, srv) t d l))) fd =
     (if fd \<in> set (clients srv) then
        (if fd_send_ok w t d l fd then map_option (\<lambda>c. snd (send_msg c t d l)) (map_of (conns w) fd)
         else None)
      else map_of (conns w) fd)"
  using assms broadcast_from_conns[of srv "nat (num_clients srv)" t d l w fd]
  by (simp add: server_broadcast_def clients_def)

lemma server_broadcast_effects:
  assumes "distinct (clients srv)"
  shows "closes (trace (fst (server_broadcast (w, srv) t d l))) =
           closes (trace w) @ filter (\<lambda>fd. \<not> fd_send_ok w t d l fd) (rev (clients srv))"
    and "info_counts (trace (fst (server_broadcast (w, srv) t d l))) =
           info_counts (trace w) @
             map (\<lambda>j. num_clients srv - 1 - int j)
               [0 ..< length (filter (\<lambda>fd. \<not> fd_send_ok w t d l fd) (clients srv))]"
  using assms broadcast_from_effects[of srv "nat (num_clients srv)" t d l w]
  by (simp_all add: server_broadcast_def clients_def)

lemma server_broadcast_fields:
  "snd (server_broadcast (w, srv) t d l) =
     srv\<lparr>client_fds := client_fds (snd (server_broadcast (w, srv) t d l)),
         num_clients := num_clients (snd (server_broadcast (w, srv) t d l))\<rparr>"
  using broadcast_from_fields[of "nat (num_clients srv)" t d l w srv]
  by (simp add: server_broadcast_def)

lemma fd_send_ok_out:
  assumes "fd_send_ok w t d l fd"
  shows "\<exists>c. map_of (conns w) fd = Some c \<and> fst (send_msg c t d l) \<and>
             out (snd (send_msg c t d l)) = out c @ msg_header t l @ take (unat l) d"
proof -
  from assms obtain c where c: "map_of (conns w) fd = Some c" "fst (send_msg c t d l)"
    by (auto simp: fd_send_ok_def split: option.splits)
  then have "send_msg c t d l = (True, snd (send_msg c t d l))"
    by (metis prod.collapse)
  from send_msg_True[OF this] c show ?thesis by blast
qed

text \<open>
  Claim C6. \<^verbatim>\<open>server_broadcast\<close> on a table of pairwise different descriptors calls
  \<^verbatim>\<open>send_msg\<close> exactly once for each attached client, from the last slot to the first.
  The clients left in the table are exactly those whose send succeeded, and the count is
  lowered by the number of failures. A client whose send succeeded has the whole frame
  appended to its stream; a client whose send failed is closed, and after each removal
  the info file is written with the count lowered by one. Descriptors that are not in the
  table and the other fields of the server state are not touched.
\<close>

theorem server_broadcast_removes_failed:
  assumes "distinct (clients srv)"
  shows "sends (trace (fst (server_broadcast (w, srv) t d l))) =
           sends (trace w) @ map (\<lambda>fd. (fd, t)) (rev (clients srv)) \<and>
         mset (clients (snd (server_broadcast (w, srv) t d l))) =
           mset (filter (fd_send_ok w t d l) (clients srv)) \<and>
         num_clients (snd (server_broadcast (w, srv) t d l)) =
           num_clients srv - int (length (filter (\<lambda>fd. \<not> fd_send_ok w t d l fd) (clients srv))) \<and>
         (\<forall>fd \<in> set (clients srv). fd_send_ok w t d l fd \<longrightarrow>
            (\<exists>c. map_of (conns w) fd = Some c \<and>
                 map_of (conns (fst (server_broadcast (w, srv) t d l))) fd = Some (snd (send_msg c t d l)) \<and>
                 out (snd (send_msg c t d l)) = out c @ msg_header t l @ take (unat l) d)) \<and>
         (\<forall>fd \<in> set (clients srv). \<not> fd_send_ok w t d l fd \<longrightarrow>
            fd \<notin> set (open_fds (fst (server_broadcast (w, srv) t d l)))) \<and>
         closes (trace (fst (server_broadcast (w, srv) t d l))) =
           closes (trace w) @ filter (\<lambda>fd. \<not> fd_send_ok w t d l fd) (rev (clients srv)) \<and>
         info_counts (trace (fst (server_broadcast (w, srv) t d l))) =
           info_counts (trace w) @
             map (\<lambda>j. num_clients srv - 1 - int j)
               [0 ..< length (filter (\<lambda>fd. \<not> fd_send_ok w t d l fd) (clients srv))] \<and>
         (\<forall>fd. fd \<notin> set (clients srv) \<longrightarrow>
            map_of (conns (fst (server_broadcast (w, srv) t d l))) fd = map_of (conns w) fd) \<and>
         snd (server_broadcast (w, srv) t d l) =
           srv\<lparr>client_fds := client_fds (snd (server_broadcast (w, srv) t d l)),
               num_clients := num_clients (snd (server_broadcast (w, srv) t d l))\<rparr>"
proof -
  note c = server_broadcast_conns[OF assms, of w t d l]
  have good: "\<forall>fd \<in> set (clients srv). fd_send_ok w t d l fd \<longrightarrow>
            (\<exists>c. map_of (conns w) fd = Some c \<and>
                 map_of (conns (fst (server_broadcast (w, srv) t d l))) fd = Some (snd (send_msg c t d l)) \<and>
                 out (snd (send_msg c t d l)) = out c @ msg_header t l @ take (unat l) d)"
  proof (intro ballI impI)
    fix fd assume fd: "fd \<in> set (clients srv)" and ok: "fd_send_ok w t d l fd"
    from fd_send_ok_out[OF ok] obtain cn where cn: "map_of (conns w) fd = Some cn"
      "out (snd (send_msg cn t d l)) = out cn @ msg_header t l @ take (unat l) d" by blast
    with c[of fd] fd ok show "\<exists>c. map_of (conns w) fd = Some c \<and>
                 map_of (conns (fst (server_broadcast (w, srv) t d l))) fd = Some (snd (send_msg c t d l)) \<and>
                 out (snd (send_msg c t d l)) = out c @ msg_header t l @ take (unat l) d"
      by simp
  qed
  have bad: "\<forall>fd \<in> set (clients srv). \<not> fd_send_ok w t d l fd \<longrightarrow>
            fd \<notin> set (open_fds (fst (server_broadcast (w, srv) t d l)))"
    using c by (simp add: map_of_open[symmetric])
  have other: "\<forall>fd. fd \<notin> set (clients srv) \<longrightarrow>
            map_of (conns (fst (server_broadcast (w, srv) t d l))) fd = map_of (conns w) fd"
    using c by simp
  show ?thesis
    using server_broadcast_sends[of w srv t d l] server_broadcast_table[OF assms, of w t d l]
      server_broadcast_effects[OF assms, of w t d l] server_broadcast_fields[of w srv t d l]
      good bad other
    by blast
qed


theorem server_broadcast_removes_failed_witness:
  "distinct [5, 6, 7 :: int] \<and>
   (let w = \<lparr>conns = [(5, \<lparr>rd = [], wr = [Wrote 9, Wrote 9], out = []\<rparr>),
                      (6, \<lparr>rd = [], wr = [WErr], out = []\<rparr>),
                      (7, \<lparr>rd = [], wr = [Wrote 9, Wrote 9], out = []\<rparr>)],
             trace = [], self_pid = 1, uid = 0\<rparr>;
        srv = \<lparr>name = ''s'', command = ''bash'', pty_master = 3, child_pid = 9, listen_fd = 4,
                client_fds = (\<lambda>i. 5 + int i), num_clients = 3, created = 0,
                child_exit_code = 0, running = True\<rparr>;
        ws' = server_broadcast (w, srv) MSG_DATA [65] 1
    in sends (trace (fst ws')) = [(7, MSG_DATA), (6, MSG_DATA), (5, MSG_DATA)] \<and>
       mset (clients (snd ws')) = {#5, 7#} \<and> num_clients (snd ws') = 2 \<and>
       closes (trace (fst ws')) = [6] \<and> info_counts (trace (fst ws')) = [2] \<and>
       6 \<notin> set (open_fds (fst ws')))"
proof -
  let ?w = "\<lparr>conns = [(5, \<lparr>rd = [], wr = [Wrote 9, Wrote 9], out = []\<rparr>),
                      (6, \<lparr>rd = [], wr = [WErr], out = []\<rparr>),
                      (7, \<lparr>rd = [], wr = [Wrote 9, Wrote 9], out = []\<rparr>)],
             trace = [], self_pid = 1, uid = 0\<rparr>"
  let ?srv = "\<lparr>name = ''s'', command = ''bash'', pty_master = 3, child_pid = 9, listen_fd = 4,
                client_fds = (\<lambda>i. 5 + int i), num_clients = 3, created = 0,
                child_exit_code = 0, running = True\<rparr>"
  have c: "clients ?srv = [5, 6, 7]"
    by (simp add: clients_def upt_rec)
  have d: "distinct (clients ?srv)" unfolding c by simp
  have ok: "fd_send_ok ?w MSG_DATA [65] 1 5" "\<not> fd_send_ok ?w MSG_DATA [65] 1 6"
    "fd_send_ok ?w MSG_DATA [65] 1 7"
    by (simp_all add: fd_send_ok_def send_msg_def conn_write_all_def msg_header_def MSG_DATA_def)
  from server_broadcast_removes_failed[OF d, of ?w MSG_DATA "[65]" 1]
  show ?thesis
    unfolding c Let_def using ok by simp
qed

section \<open>The shutdown sequence\<close>

text \<open>
  Claim C1. A child that ignores \<^verbatim>\<open>SIGHUP\<close> and \<^verbatim>\<open>SIGTERM\<close> is still running at the
  first two calls of \<^verbatim>\<open>waitpid\<close>; the daemon sends \<^verbatim>\<open>SIGHUP\<close>, pauses 50 ms, sends
  \<^verbatim>\<open>SIGTERM\<close>, pauses 100 ms, sends \<^verbatim>\<open>SIGKILL\<close> and waits. The blocking \<^verbatim>\<open>waitpid\<close> then
  observes a death by signal 9, and no exit code was recorded before. The shutdown
  sequence leaves the stored exit code at 0 and the \<^verbatim>\<open>EXIT\<close> frame carries 0, whereas the
  handler of \<^verbatim>\<open>SIGCHLD\<close> stores 137 for the same status: the sequence combines a newly
  observed status into the exit code only when the child exited normally.
\<close>

theorem shutdown_child_drops_signal_status:
  "(let srv = \<lparr>name = ''s'', command = ''bash'', pty_master = 3, child_pid = 100, listen_fd = 4,
                client_fds = (\<lambda>i. 5), num_clients = 1, created = 0, child_exit_code = 0,
                running = False\<rparr>;
        e = \<lparr>sh_sigs1 = [], sh_wait1 = WaitNone, sh_sigs2 = [], sh_wait2 = WaitNone,
              sh_wait3 = WaitReaped (WSignaled 9), sh_wstatus0 = st0\<rparr>;
        w = \<lparr>conns = [(5, \<lparr>rd = [], wr = [Wrote 5, Wrote 2], out = []\<rparr>)], trace = [],
              self_pid = p, uid = u\<rparr>;
        ws' = shutdown_child e (w, srv)
    in trace (fst ws') =
         [Kill 100 SIGHUP, Usleep 50000, Waitpid 100 True, Kill 100 SIGTERM, Usleep 100000,
          Waitpid 100 True, Kill 100 SIGKILL, Waitpid 100 False] \<and>
       child_exit_code (snd ws') = 0 \<and>
       map_of (conns (fst (server_exit_broadcast ws'))) 5
         = Some \<lparr>rd = [], wr = [], out = [4, 0, 0, 0, 1, 0]\<rparr> \<and>
       child_exit_code (snd (server_sigchld (WaitReaped (WSignaled 9)) (w, srv))) = 137)"
proof -
  let ?srv = "\<lparr>name = ''s'', command = ''bash'', pty_master = 3, child_pid = 100, listen_fd = 4,
                client_fds = (\<lambda>i. 5), num_clients = 1, created = 0, child_exit_code = 0,
                running = False\<rparr>"
  let ?e = "\<lparr>sh_sigs1 = [], sh_wait1 = WaitNone, sh_sigs2 = [], sh_wait2 = WaitNone,
              sh_wait3 = WaitReaped (WSignaled 9), sh_wstatus0 = st0\<rparr>"
  let ?c = "\<lparr>rd = [], wr = [Wrote 5, Wrote 2], out = []\<rparr>"
  let ?w = "\<lparr>conns = [(5, ?c)], trace = [], self_pid = p, uid = u\<rparr>"
  let ?tr = "[Kill 100 SIGHUP, Usleep 50000, Waitpid 100 True, Kill 100 SIGTERM, Usleep 100000,
          Waitpid 100 True, Kill 100 SIGKILL, Waitpid 100 False]"
  have sh: "shutdown_child ?e (?w, ?srv) = (?w\<lparr>trace := ?tr\<rparr>, ?srv)"
    by (simp add: shutdown_child_def emit_def stored_status_def capture_exit_code_def Let_def)
  have sm: "send_msg ?c MSG_EXIT [0] 1 = (True, \<lparr>rd = [], wr = [], out = [4, 0, 0, 0, 1, 0]\<rparr>)"
    by (simp add: send_msg_def conn_write_all_def msg_header_def MSG_EXIT_def Let_def)
  have ex: "map_of (conns (fst (server_exit_broadcast (?w\<lparr>trace := ?tr\<rparr>, ?srv)))) 5
         = Some \<lparr>rd = [], wr = [], out = [4, 0, 0, 0, 1, 0]\<rparr>"
    by (simp add: server_exit_broadcast_def server_broadcast_def broadcast_one_def
        send_msg_fd_def sm emit_def set_conn_def)
  have hd: "child_exit_code (snd (server_sigchld (WaitReaped (WSignaled 9)) (?w, ?srv))) = 137"
    by (simp add: server_sigchld_def Let_def)
  show ?thesis
    unfolding Let_def sh using ex hd by simp
qed

section \<open>The invariant of the daemon\<close>

lemma recv_msg_length:
  assumes "fst (recv_msg m c) = Some (t, data, len)"
  shows "length data = unat len"
proof -
  obtain r s1 where r1: "read_all (rd c) 5 = (r, s1)" by force
  show ?thesis
  proof (cases r)
    case None
    with r1 assms show ?thesis by (simp add: recv_msg_def)
  next
    case (Some hdr)
    show ?thesis
    proof (cases "decode_len hdr = 0")
      case True
      with r1 Some assms show ?thesis by (simp add: recv_msg_def Let_def)
    next
      case False
      obtain r' s2 where r2: "read_all s1 (unat (decode_len hdr)) = (r', s2)" by force
      with r1 Some False assms obtain "r' = Some data" "len = decode_len hdr"
        by (cases r') (auto simp: recv_msg_def Let_def split: if_splits)
      with r2 read_all_Some[of s1 "unat (decode_len hdr)" data s2] show ?thesis by simp
    qed
  qed
qed

lemma srv_inv_open_cong:
  "open_fds w' = open_fds w \<Longrightarrow> srv_inv (w', srv) = srv_inv (w, srv)"
  by (simp add: srv_inv_def)

lemma accept_none:
  "ev_accept ev = None \<Longrightarrow> server_accept ev (w, srv) = (w, srv)"
  by (simp add: server_accept_def)

lemma close_after_open:
  assumes "fd \<notin> set (open_fds w)"
  shows "filter (\<lambda>p. fst p \<noteq> fd) (conns w @ [(fd, c)]) = conns w"
proof -
  have "filter (\<lambda>p. fst p \<noteq> fd) (conns w) = conns w"
    using assms by (intro filter_True) (auto simp: open_fds_def)
  then show ?thesis by simp
qed

lemma accept_full:
  assumes "ev_accept ev = Some c" and "MAX_CLIENTS \<le> num_clients srv"
  shows "server_accept ev (w, srv) = (emit w (Close (lowest_free (open_fds w))), srv)"
  using assms close_after_open[OF lowest_free_notin, of w c]
  by (simp add: server_accept_def sys_open_def sys_close_def Let_def emit_def)

lemma sys_open_eq:
  "sys_open w c = (lowest_free (open_fds w), w\<lparr>conns := conns w @ [(lowest_free (open_fds w), c)]\<rparr>)"
  by (simp add: sys_open_def Let_def)

lemma recv_after_open:
  "recv_msg_fd m (emit (w\<lparr>conns := conns w @ [(lowest_free (open_fds w), c)]\<rparr>) e)
       (lowest_free (open_fds w)) =
     (fst (recv_msg m c),
      set_conn (emit (w\<lparr>conns := conns w @ [(lowest_free (open_fds w), c)]\<rparr>) e)
        (lowest_free (open_fds w)) (snd (recv_msg m c)))"
  using map_of_sys_open[of w c "lowest_free (open_fds w)"]
  by (simp add: recv_msg_fd_def emit_simps sys_open_eq split_beta)

lemma accept_hello:
  assumes "ev_accept ev = Some c" and "num_clients srv < MAX_CLIENTS"
      and "hello_frame (ev_malloc ev 0) c"
  shows "\<exists>w'. server_accept ev (w, srv) =
           (w', srv\<lparr>client_fds := (client_fds srv)(nat (num_clients srv) := lowest_free (open_fds w)),
                    num_clients := num_clients srv + 1\<rparr>) \<and>
         open_fds w' = open_fds w @ [lowest_free (open_fds w)] \<and>
         sends (trace w') = sends (trace w) \<and>
         info_counts (trace w') = info_counts (trace w) @ [num_clients srv + 1]"
proof -
  let ?cfd = "lowest_free (open_fds w)"
  let ?w1 = "w\<lparr>conns := conns w @ [(?cfd, c)]\<rparr>"
  let ?w2 = "emit ?w1 (SetRcvTimeo ?cfd 2)"
  from assms(3) obtain t data len where r: "fst (recv_msg (ev_malloc ev 0) c) = Some (t, data, len)"
    and h: "t = MSG_HELLO" "len = 4"
    by (auto simp: hello_frame_def split: option.splits)
  let ?w3 = "set_conn ?w2 ?cfd (snd (recv_msg (ev_malloc ev 0) c))"
  let ?w4 = "emit ?w3 (Winsize (pty_master srv) (decode_u16 (data ! 0) (data ! 1))
                        (decode_u16 (data ! 2) (data ! 3)))"
  let ?w5 = "emit ?w4 (SetRcvTimeo ?cfd CLIENT_RECV_TIMEOUT)"
  let ?srv1 = "srv\<lparr>client_fds := (client_fds srv)(nat (num_clients srv) := ?cfd),
                    num_clients := num_clients srv + 1\<rparr>"
  let ?w6 = "write_info_file ?w5 (info_path (uid ?w5) (name ?srv1)) (self_pid ?w5)
               (num_clients ?srv1) (created ?srv1) (command ?srv1)"
  have rm: "recv_msg_fd (ev_malloc ev 0) ?w2 ?cfd = (Some (t, data, len), ?w3)"
    using recv_after_open[of "ev_malloc ev 0" w c "SetRcvTimeo ?cfd 2"] r by simp
  have so: "sys_open w c = (?cfd, ?w1)"
    by (rule sys_open_eq)
  have o1: "open_fds ?w1 = open_fds w @ [?cfd]" "trace ?w1 = trace w"
    by (simp_all add: open_fds_def)
  have "server_accept ev (w, srv) = (?w6, ?srv1)"
    using assms(1,2) h
    by (simp add: server_accept_def so rm Let_def del: fun_upd_apply)
  moreover have "open_fds ?w6 = open_fds w @ [?cfd]"
    by (simp add: write_info_file_simps emit_simps open_fds_set_conn o1)
  moreover have "sends (trace ?w6) = sends (trace w)"
    by (simp add: write_info_file_simps emit_simps set_conn_simps o1 sends_append)
  moreover have "info_counts (trace ?w6) = info_counts (trace w) @ [num_clients srv + 1]"
    by (simp add: write_info_file_simps emit_simps set_conn_simps o1 info_counts_append)
  ultimately show ?thesis by blast
qed

lemma accept_reject:
  assumes "ev_accept ev = Some c" and "num_clients srv < MAX_CLIENTS"
      and "\<not> hello_frame (ev_malloc ev 0) c"
  shows "\<exists>w'. server_accept ev (w, srv) = (w', srv) \<and> open_fds w' = open_fds w \<and>
              sends (trace w') = sends (trace w) \<and> info_counts (trace w') = info_counts (trace w) \<and>
              closes (trace w') = closes (trace w) @ [lowest_free (open_fds w)]"
proof -
  let ?cfd = "lowest_free (open_fds w)"
  let ?w1 = "w\<lparr>conns := conns w @ [(?cfd, c)]\<rparr>"
  let ?w2 = "emit ?w1 (SetRcvTimeo ?cfd 2)"
  let ?w3 = "set_conn ?w2 ?cfd (snd (recv_msg (ev_malloc ev 0) c))"
  have rm: "recv_msg_fd (ev_malloc ev 0) ?w2 ?cfd = (fst (recv_msg (ev_malloc ev 0) c), ?w3)"
    by (rule recv_after_open)
  have so: "sys_open w c = (?cfd, ?w1)"
    by (rule sys_open_eq)
  have o1: "open_fds ?w1 = open_fds w @ [?cfd]" "trace ?w1 = trace w"
    by (simp_all add: open_fds_def)
  have "server_accept ev (w, srv) = (sys_close ?w3 ?cfd, srv)"
    using assms
    by (auto simp: server_accept_def so rm Let_def hello_frame_def split: option.splits)
  moreover have "open_fds (sys_close ?w3 ?cfd) = open_fds w"
  proof -
    have "filter (\<lambda>x. x \<noteq> ?cfd) (open_fds w) = open_fds w"
      using lowest_free_notin[of "open_fds w"] by (intro filter_True) auto
    then show ?thesis
      by (simp add: sys_close_simps emit_simps open_fds_set_conn o1)
  qed
  moreover have "sends (trace (sys_close ?w3 ?cfd)) = sends (trace w)"
    "info_counts (trace (sys_close ?w3 ?cfd)) = info_counts (trace w)"
    "closes (trace (sys_close ?w3 ?cfd)) = closes (trace w) @ [?cfd]"
    by (simp_all add: sys_close_simps emit_simps set_conn_simps o1 sends_append
        info_counts_append closes_append)
  ultimately show ?thesis by blast
qed


lemma clients_append:
  assumes "0 \<le> num_clients srv"
  shows "clients (srv\<lparr>client_fds := (client_fds srv)(nat (num_clients srv) := fd),
                      num_clients := num_clients srv + 1\<rparr>) = clients srv @ [fd]"
proof -
  have n: "nat (num_clients srv + 1) = Suc (nat (num_clients srv))" using assms by simp
  have "map ((client_fds srv)(nat (num_clients srv) := fd)) [0 ..< nat (num_clients srv)]
          = map (client_fds srv) [0 ..< nat (num_clients srv)]"
    by (rule map_cong) auto
  then show ?thesis
    by (simp add: clients_def n)
qed

lemma srv_inv_accept:
  assumes "srv_inv (w, srv)"
  shows "srv_inv (server_accept ev (w, srv))"
proof (cases "ev_accept ev")
  case None
  with assms show ?thesis by (simp add: accept_none)
next
  case (Some c)
  show ?thesis
  proof (cases "MAX_CLIENTS \<le> num_clients srv")
    case True
    from accept_full[OF Some True, of w] assms show ?thesis
      by (simp add: srv_inv_def emit_simps)
  next
    case False
    then have lt: "num_clients srv < MAX_CLIENTS" by simp
    show ?thesis
    proof (cases "hello_frame (ev_malloc ev 0) c")
      case True
      from accept_hello[OF Some lt True, of w] obtain w' where
        a: "server_accept ev (w, srv) =
             (w', srv\<lparr>client_fds := (client_fds srv)(nat (num_clients srv) := lowest_free (open_fds w)),
                      num_clients := num_clients srv + 1\<rparr>)"
        and o: "open_fds w' = open_fds w @ [lowest_free (open_fds w)]" by blast
      have n0: "0 \<le> num_clients srv" using assms by (simp add: srv_inv_def)
      have nin: "lowest_free (open_fds w) \<notin> set (clients srv)"
        using assms lowest_free_notin[of "open_fds w"] by (auto simp: srv_inv_def)
      show ?thesis
        unfolding a using assms lt nin o
        by (auto simp: srv_inv_def clients_append[OF n0])
    next
      case False
      from accept_reject[OF Some lt False, of w] assms show ?thesis
        by (auto simp: srv_inv_def)
    qed
  qed
qed

lemma srv_inv_remove:
  assumes inv: "srv_inv (w, srv)" and idx: "0 \<le> idx" "idx < num_clients srv"
  shows "srv_inv (server_remove_client (w, srv) idx)"
proof -
  let ?cs = "clients srv" and ?r = "server_remove_client (w, srv) idx"
  let ?a = "client_fds srv (nat idx)"
  have i: "nat idx < length ?cs" using idx by (simp add: length_clients)
  have a: "?cs ! nat idx = ?a" using idx by (simp add: clients_nth)
  have m: "mset (clients (snd ?r)) = mset ?cs - {# ?a #}"
    using remove_client_clients[OF idx, of w] swap_remove_mset[OF i] a by simp
  have "?a \<in># mset ?cs" using i a by (metis nth_mem set_mset_mset)
  then have eq: "mset ?cs = mset (?a # clients (snd ?r))"
    using m by simp
  have dcs: "distinct ?cs" using inv by (simp add: srv_inv_def)
  have d: "distinct (?a # clients (snd ?r))"
    using mset_eq_imp_distinct_iff[OF eq] dcs by blast
  have s: "set ?cs = set (?a # clients (snd ?r))"
    by (rule mset_eq_setD[OF eq])
  have o: "open_fds (fst ?r) = filter (\<lambda>x. x \<noteq> ?a) (open_fds w)"
    by (simp add: remove_client_world write_info_file_simps sys_close_simps)
  have n: "num_clients (snd ?r) = num_clients srv - 1"
    by (simp add: remove_client_srv)
  have sub: "set (clients (snd ?r)) \<subseteq> set (open_fds (fst ?r))"
    unfolding o using d s inv by (auto simp: srv_inv_def)
  show ?thesis
    using d sub n idx inv by (simp add: srv_inv_def)
qed

lemma srv_inv_broadcast:
  assumes "srv_inv (w, srv)"
  shows "srv_inv (server_broadcast (w, srv) t d l)"
proof -
  let ?r = "server_broadcast (w, srv) t d l" and ?cs = "clients srv"
  have dc: "distinct ?cs" and n0: "0 \<le> num_clients srv" and n16: "num_clients srv \<le> MAX_CLIENTS"
    using assms by (simp_all add: srv_inv_def)
  note tb = server_broadcast_table[OF dc, of w t d l]
  from tb have m: "mset (clients (snd ?r)) = mset (filter (fd_send_ok w t d l) ?cs)" by blast
  then have d: "distinct (clients (snd ?r))"
    using dc by (metis distinct_filter mset_eq_imp_distinct_iff)
  have s: "set (clients (snd ?r)) = {fd \<in> set ?cs. fd_send_ok w t d l fd}"
    using mset_eq_setD[OF m] by simp
  have len: "length ?cs = length (filter (fd_send_ok w t d l) ?cs)
               + length (filter (\<lambda>fd. \<not> fd_send_ok w t d l fd) ?cs)"
    by (rule sum_length_filter_compl[symmetric])
  have "num_clients srv = int (length ?cs)" using n0 by (simp add: length_clients)
  with tb len have n: "0 \<le> num_clients (snd ?r)" "num_clients (snd ?r) \<le> num_clients srv"
    by simp_all
  have sub: "set (clients (snd ?r)) \<subseteq> set (open_fds (fst ?r))"
  proof
    fix fd assume "fd \<in> set (clients (snd ?r))"
    with s have fd: "fd \<in> set ?cs" and ok: "fd_send_ok w t d l fd" by auto
    from fd_send_ok_out[OF ok] obtain c where "map_of (conns w) fd = Some c" by blast
    with server_broadcast_conns[OF dc, of w t d l fd] fd ok
    have "map_of (conns (fst ?r)) fd \<noteq> None" by simp
    then show "fd \<in> set (open_fds (fst ?r))" by (simp add: map_of_open)
  qed
  show ?thesis
    using d sub n n16 by (simp add: srv_inv_def)
qed

lemma client_input_recv_frame:
  assumes True: "ev_client_in ev i"
   and rc: "recv_msg_fd (ev_malloc ev (Suc i)) w (client_fds srv i) = (Some (t, data, len), w1)"
  shows "client_input ev i (w, srv) =
        (if t = MSG_DATA then (if len > 0 then (snd (write_all_fd w1 (pty_master srv) data), srv) else (w1, srv))
         else if t = MSG_WINCH then (if len = 4 then (emit w1 (Winsize (pty_master srv) (decode_u16 (data ! 0) (data ! 1))
                 (decode_u16 (data ! 2) (data ! 3))), srv) else (w1, srv))
         else if t = MSG_DETACH then server_remove_client (w1, srv) (int i)
         else (w1, srv))"
  using True rc unfolding client_input_def by simp


lemma client_input_recv_some:
  assumes "ev_client_in ev i"
      and "recv_msg_fd (ev_malloc ev (Suc i)) w (client_fds srv i) = (Some (t, data, len), w1)"
  shows "client_input ev i (w, srv) = (w1, srv) \<or>
         client_input ev i (w, srv) = (snd (write_all_fd w1 (pty_master srv) data), srv) \<or>
         client_input ev i (w, srv) =
           (emit w1 (Winsize (pty_master srv) (decode_u16 (data ! 0) (data ! 1))
                 (decode_u16 (data ! 2) (data ! 3))), srv) \<or>
         client_input ev i (w, srv) = server_remove_client (w1, srv) (int i)"
  unfolding client_input_recv_frame[OF assms] by simp

lemma client_input_recv_none:
  assumes "ev_client_in ev i"
      and "recv_msg_fd (ev_malloc ev (Suc i)) w (client_fds srv i) = (None, w1)"
  shows "client_input ev i (w, srv) = server_remove_client (w1, srv) (int i)"
  using assms unfolding client_input_def by simp

lemma client_input_no_in:
  assumes "\<not> ev_client_in ev i"
  shows "client_input ev i (w, srv) = (w, srv) \<or>
         client_input ev i (w, srv) = server_remove_client (w, srv) (int i)"
  using assms unfolding client_input_def by simp


lemma client_input_cases:
  "\<exists>w'. open_fds w' = open_fds w \<and> sends (trace w') = sends (trace w) \<and>
        (client_input ev i (w, srv) = (w', srv) \<or>
         client_input ev i (w, srv) = server_remove_client (w', srv) (int i))"
proof (cases "ev_client_in ev i")
  case True
  obtain r w1 where rc: "recv_msg_fd (ev_malloc ev (Suc i)) w (client_fds srv i) = (r, w1)" by force
  have "w1 = snd (recv_msg_fd (ev_malloc ev (Suc i)) w (client_fds srv i))" using rc by simp
  then have w1: "open_fds w1 = open_fds w" "sends (trace w1) = sends (trace w)"
    by (simp_all only: recv_msg_fd_simps)
  show ?thesis
  proof (cases r)
    case None
    from client_input_recv_none[OF True rc[unfolded None]] w1 show ?thesis
      by (intro exI[of _ w1]) simp
  next
    case (Some f)
    obtain t data len where f: "f = (t, data, len)" by (cases f) auto
    let ?wp = "snd (write_all_fd w1 (pty_master srv) data)"
    let ?ww = "emit w1 (Winsize (pty_master srv) (decode_u16 (data ! 0) (data ! 1))
                 (decode_u16 (data ! 2) (data ! 3)))"
    have wp: "open_fds ?wp = open_fds w" "sends (trace ?wp) = sends (trace w)"
      using w1 by (simp_all add: write_all_fd_simps)
    have ww: "open_fds ?ww = open_fds w" "sends (trace ?ww) = sends (trace w)"
      using w1 by (simp_all add: emit_simps sends_append)
    from client_input_recv_some[OF True rc[unfolded Some f]]
    consider "client_input ev i (w, srv) = (w1, srv)" | "client_input ev i (w, srv) = (?wp, srv)"
      | "client_input ev i (w, srv) = (?ww, srv)"
      | "client_input ev i (w, srv) = server_remove_client (w1, srv) (int i)"
      by argo
    then show ?thesis
    proof cases
      case 1 with w1 show ?thesis by (intro exI[of _ w1]) simp
    next
      case 2 with wp show ?thesis by (intro exI[of _ ?wp]) simp
    next
      case 3 with ww show ?thesis by (intro exI[of _ ?ww]) simp
    next
      case 4 with w1 show ?thesis by (intro exI[of _ w1]) simp
    qed
  qed
next
  case False
  from client_input_no_in[OF False, of w srv] show ?thesis
    by (intro exI[of _ w]) simp
qed


lemma client_inputs_from_inv:
  assumes "srv_inv (w, srv)" and "int k \<le> num_clients srv"
  shows "srv_inv (client_inputs_from ev k (w, srv)) \<and>
         sends (trace (fst (client_inputs_from ev k (w, srv)))) = sends (trace w)"
  using assms
proof (induction k arbitrary: w srv)
  case 0
  then show ?case by simp
next
  case (Suc k)
  from client_input_cases[of w ev k srv] obtain w' where
    A: "open_fds w' = open_fds w \<and> sends (trace w') = sends (trace w) \<and>
        (client_input ev k (w, srv) = (w', srv) \<or>
         client_input ev k (w, srv) = server_remove_client (w', srv) (int k))" ..
  from A have o: "open_fds w' = open_fds w" by (rule conjunct1)
  from A have t: "sends (trace w') = sends (trace w)" by (elim conjE)
  from A have c: "client_input ev k (w, srv) = (w', srv) \<or>
        client_input ev k (w, srv) = server_remove_client (w', srv) (int k)"
    by (elim conjE)
  have inv': "srv_inv (w', srv)" using Suc.prems(1) srv_inv_open_cong[OF o, of srv] by simp
  from c show ?case
  proof
    assume e: "client_input ev k (w, srv) = (w', srv)"
    have "int k \<le> num_clients srv" using Suc.prems(2) by simp
    from Suc.IH[OF inv' this] e t show ?thesis by simp
  next
    assume e: "client_input ev k (w, srv) = server_remove_client (w', srv) (int k)"
    obtain w2 srv2 where r: "server_remove_client (w', srv) (int k) = (w2, srv2)" by force
    have i2: "srv_inv (w2, srv2)"
      using srv_inv_remove[OF inv', of "int k"] Suc.prems(2) r by simp
    have n2: "int k \<le> num_clients srv2"
      using remove_client_srv[of w' srv "int k"] r Suc.prems(2) by simp
    have t2: "sends (trace w2) = sends (trace w)"
      using remove_client_world[of w' srv "int k"] r t
      by (simp add: write_info_file_simps sys_close_simps sends_append)
    from Suc.IH[OF i2 n2] e r t2 show ?thesis by simp
  qed
qed

lemma clients_running: "clients (srv\<lparr>running := b\<rparr>) = clients srv"
  by (simp add: clients_def)

lemma srv_inv_running: "srv_inv (w, srv\<lparr>running := b\<rparr>) = srv_inv (w, srv)"
  by (simp add: srv_inv_def clients_running)

lemma sigchld_keeps:
  "open_fds (fst (server_sigchld r (w, srv))) = open_fds w \<and>
   sends (trace (fst (server_sigchld r (w, srv)))) = sends (trace w) \<and>
   client_fds (snd (server_sigchld r (w, srv))) = client_fds srv \<and>
   num_clients (snd (server_sigchld r (w, srv))) = num_clients srv"
  by (cases r) (simp_all add: server_sigchld_def Let_def emit_simps sends_append)

lemma sigterm_keeps:
  "fst (server_sigterm (w, srv)) = w \<and>
   client_fds (snd (server_sigterm (w, srv))) = client_fds srv \<and>
   num_clients (snd (server_sigterm (w, srv))) = num_clients srv"
  by (simp add: server_sigterm_def)

lemma deliver_keeps:
  "open_fds (fst (deliver sgs (w, srv))) = open_fds w \<and>
   sends (trace (fst (deliver sgs (w, srv)))) = sends (trace w) \<and>
   client_fds (snd (deliver sgs (w, srv))) = client_fds srv \<and>
   num_clients (snd (deliver sgs (w, srv))) = num_clients srv"
proof (induction sgs arbitrary: w srv)
  case Nil
  show ?case by simp
next
  case (Cons sg sgs)
  show ?case
  proof (cases sg)
    case (SigChld r)
    obtain w1 srv1 where s: "server_sigchld r (w, srv) = (w1, srv1)" by force
    with sigchld_keeps[of r w srv] Cons.IH[of w1 srv1] SigChld show ?thesis by simp
  next
    case SigTerm
    obtain w1 srv1 where s: "server_sigterm (w, srv) = (w1, srv1)" by force
    with sigterm_keeps[of w srv] Cons.IH[of w1 srv1] SigTerm show ?thesis by simp
  qed
qed

lemma srv_inv_cong:
  assumes "open_fds w' = open_fds w" "client_fds srv' = client_fds srv"
    "num_clients srv' = num_clients srv"
  shows "srv_inv (w', srv') = srv_inv (w, srv)"
  using assms by (simp add: srv_inv_def clients_def)

lemma srv_inv_deliver:
  "srv_inv (deliver sgs (w, srv)) = srv_inv (w, srv)"
proof -
  obtain w1 srv1 where s: "deliver sgs (w, srv) = (w1, srv1)" by force
  with deliver_keeps[of sgs w srv] have "open_fds w1 = open_fds w" "client_fds srv1 = client_fds srv"
    "num_clients srv1 = num_clients srv" by simp_all
  from srv_inv_cong[OF this] s show ?thesis by simp
qed

lemma server_pty_inv:
  assumes "srv_inv (w, srv)"
  shows "srv_inv (server_pty ev (w, srv)) \<and>
         (\<exists>D. sends (trace (fst (server_pty ev (w, srv)))) = sends (trace w) @ D \<and>
              (\<forall>p \<in> set D. snd p = MSG_DATA))"
proof -
  obtain r w' where rd: "read_fd w (pty_master srv) BUF_SIZE = (r, w')" by force
  have "w' = snd (read_fd w (pty_master srv) BUF_SIZE)" using rd by simp
  then have w': "open_fds w' = open_fds w" "sends (trace w') = sends (trace w)"
    by (simp_all only: read_fd_simps)
  have i': "srv_inv (w', srv)" using assms srv_inv_open_cong[OF w'(1), of srv] by simp
  define inner where "inner =
     (if ev_pty_in ev then
        (case r of
           RdBytes buf \<Rightarrow>
             if buf \<noteq> [] then server_broadcast (w', srv) MSG_DATA buf (of_nat (length buf))
             else (w', srv\<lparr>running := False\<rparr>)
         | RdEintr \<Rightarrow> (w', srv)
         | RdAgain \<Rightarrow> (w', srv)
         | RdErr \<Rightarrow> (w', srv\<lparr>running := False\<rparr>))
      else (w, srv))"
  have sp: "server_pty ev (w, srv) =
      (if ev_pty_hup ev then (fst inner, (snd inner)\<lparr>running := False\<rparr>) else inner)"
    unfolding inner_def server_pty_def using rd
    by (simp add: split_beta Let_def)
  have in_inv: "srv_inv inner \<and>
         (\<exists>D. sends (trace (fst inner)) = sends (trace w) @ D \<and> (\<forall>p \<in> set D. snd p = MSG_DATA))"
  proof (cases "ev_pty_in ev")
    case False
    with assms show ?thesis by (simp add: inner_def)
  next
    case True
    show ?thesis
    proof (cases r)
      case (RdBytes buf)
      show ?thesis
      proof (cases "buf = []")
        case True
        with \<open>ev_pty_in ev\<close> RdBytes i' w' show ?thesis
          by (simp add: inner_def srv_inv_running)
      next
        case False
        have e: "inner = server_broadcast (w', srv) MSG_DATA buf (of_nat (length buf))"
          using \<open>ev_pty_in ev\<close> RdBytes False by (simp add: inner_def)
        have "sends (trace (fst inner)) =
                sends (trace w) @ map (\<lambda>fd. (fd, MSG_DATA)) (rev (clients srv))"
          unfolding e server_broadcast_sends w' ..
        moreover have "\<forall>p \<in> set (map (\<lambda>fd. (fd, MSG_DATA)) (rev (clients srv))). snd p = MSG_DATA"
          by simp
        ultimately have "\<exists>D. sends (trace (fst inner)) = sends (trace w) @ D \<and>
                           (\<forall>p \<in> set D. snd p = MSG_DATA)"
          by (intro exI[of _ "map (\<lambda>fd. (fd, MSG_DATA)) (rev (clients srv))"] conjI)
        moreover have "srv_inv inner" unfolding e by (rule srv_inv_broadcast[OF i'])
        ultimately show ?thesis by simp
      qed
    next
      case RdEintr
      with True i' w' show ?thesis by (simp add: inner_def)
    next
      case RdAgain
      with True i' w' show ?thesis by (simp add: inner_def)
    next
      case RdErr
      with True i' w' show ?thesis by (simp add: inner_def srv_inv_running)
    qed
  qed
  obtain wi si where inner: "inner = (wi, si)" by force
  show ?thesis
    unfolding sp using in_inv unfolding inner by (simp add: srv_inv_running)
qed

lemma accept_sends:
  "sends (trace (fst (server_accept ev (w, srv)))) = sends (trace w)"
proof (cases "ev_accept ev")
  case None
  then show ?thesis by (simp add: accept_none)
next
  case (Some c)
  show ?thesis
  proof (cases "MAX_CLIENTS \<le> num_clients srv")
    case True
    from accept_full[OF Some True, of w] show ?thesis
      by (simp add: emit_simps sends_append)
  next
    case False
    then have lt: "num_clients srv < MAX_CLIENTS" by simp
    show ?thesis
    proof (cases "hello_frame (ev_malloc ev 0) c")
      case True
      from accept_hello[OF Some lt True, of w] show ?thesis by auto
    next
      case False
      from accept_reject[OF Some lt False, of w] show ?thesis by auto
    qed
  qed
qed

lemma hello_frame_payload:
  assumes "hello_frame m c"
  shows "\<exists>data. fst (recv_msg m c) = Some (MSG_HELLO, data, 4) \<and> length data = 4"
proof -
  from assms obtain t data len where r: "fst (recv_msg m c) = Some (t, data, len)"
    and h: "t = MSG_HELLO" "len = 4"
    by (auto simp: hello_frame_def split: option.splits)
  from recv_msg_length[OF r] h have "length data = 4" by simp
  with r h show ?thesis by simp
qed

lemma accept_counts:
  assumes "num_clients (snd (server_accept ev (w, srv))) \<noteq> num_clients srv"
  shows "\<exists>c data. ev_accept ev = Some c \<and> num_clients srv < MAX_CLIENTS \<and>
           fst (recv_msg (ev_malloc ev 0) c) = Some (MSG_HELLO, data, 4) \<and> length data = 4 \<and>
           num_clients (snd (server_accept ev (w, srv))) = num_clients srv + 1 \<and>
           info_counts (trace (fst (server_accept ev (w, srv)))) =
             info_counts (trace w) @ [num_clients srv + 1]"
proof (cases "ev_accept ev")
  case None
  with assms show ?thesis by (simp add: accept_none)
next
  case (Some c)
  show ?thesis
  proof (cases "MAX_CLIENTS \<le> num_clients srv")
    case True
    from accept_full[OF Some True, of w] assms show ?thesis by simp
  next
    case False
    then have lt: "num_clients srv < MAX_CLIENTS" by simp
    show ?thesis
    proof (cases "hello_frame (ev_malloc ev 0) c")
      case True
      from hello_frame_payload[OF True] obtain data where
        d: "fst (recv_msg (ev_malloc ev 0) c) = Some (MSG_HELLO, data, 4)" "length data = 4"
        by auto
      from accept_hello[OF Some lt True, of w] Some lt d show ?thesis by auto
    next
      case False
      from accept_reject[OF Some lt False, of w] assms show ?thesis by auto
    qed
  qed
qed

lemma client_inputs_inv:
  assumes "srv_inv (w, srv)"
  shows "srv_inv (client_inputs ev (w, srv)) \<and>
         sends (trace (fst (client_inputs ev (w, srv)))) = sends (trace w)"
proof -
  have "int (nat (num_clients srv)) \<le> num_clients srv"
    using assms by (simp add: srv_inv_def)
  from client_inputs_from_inv[OF assms this, of ev] show ?thesis
    by (simp add: client_inputs_def)
qed

lemma server_iter_inv:
  assumes "srv_inv (w, srv)"
  shows "srv_inv (snd (server_iter ev (w, srv))) \<and>
         (\<exists>D. sends (trace (fst (snd (server_iter ev (w, srv))))) = sends (trace w) @ D \<and>
              (\<forall>p \<in> set D. snd p = MSG_DATA))"
proof (cases "ev_poll ev")
  case PollEintr
  with assms show ?thesis by (simp add: server_iter_def)
next
  case PollFail
  with assms show ?thesis by (simp add: server_iter_def)
next
  case PollOk
  obtain w1 srv1 where a: "(if ev_listen_in ev then server_accept ev (w, srv) else (w, srv)) = (w1, srv1)"
    by force
  have i1: "srv_inv (w1, srv1)" and t1: "sends (trace w1) = sends (trace w)"
    using a assms srv_inv_accept[OF assms, of ev] accept_sends[of ev w srv]
    by (auto split: if_splits)
  obtain w2 srv2 where p: "server_pty ev (w1, srv1) = (w2, srv2)" by force
  from server_pty_inv[OF i1, of ev] p obtain D where
    i2: "srv_inv (w2, srv2)" and t2: "sends (trace w2) = sends (trace w1) @ D"
    and dd: "\<forall>p \<in> set D. snd p = MSG_DATA" by auto
  obtain w3 srv3 where c: "client_inputs ev (w2, srv2) = (w3, srv3)" by force
  from client_inputs_inv[OF i2, of ev] c have
    i3: "srv_inv (w3, srv3)" and t3: "sends (trace w3) = sends (trace w2)" by auto
  have it: "server_iter ev (w, srv) = (False, w3, srv3)"
    using PollOk a p c by (simp add: server_iter_def)
  have "sends (trace w3) = sends (trace w) @ D" using t1 t2 t3 by simp
  with dd have "\<exists>D. sends (trace w3) = sends (trace w) @ D \<and> (\<forall>p \<in> set D. snd p = MSG_DATA)"
    by (intro exI[of _ D] conjI)
  with i3 show ?thesis unfolding it by simp
qed

lemma event_loop_inv:
  assumes "srv_inv (w, srv)"
  shows "srv_inv (snd (event_loop evs (w, srv))) \<and>
         (\<exists>D. sends (trace (fst (snd (event_loop evs (w, srv))))) = sends (trace w) @ D \<and>
              (\<forall>p \<in> set D. snd p = MSG_DATA))"
  using assms
proof (induction evs arbitrary: w srv)
  case Nil
  then show ?case by simp
next
  case (Cons ev evs)
  show ?case
  proof (cases "running srv")
    case False
    with Cons.prems show ?thesis by simp
  next
    case True
    obtain brk w1 srv1 where it: "server_iter ev (w, srv) = (brk, w1, srv1)"
      by (metis prod_cases3)
    from server_iter_inv[OF Cons.prems, of ev] it obtain D1 where
      i1: "srv_inv (w1, srv1)" and t1: "sends (trace w1) = sends (trace w) @ D1"
      and d1: "\<forall>p \<in> set D1. snd p = MSG_DATA" by auto
    obtain w2 srv2 where dl: "deliver (ev_sigs ev) (w1, srv1) = (w2, srv2)" by force
    have i2: "srv_inv (w2, srv2)" using srv_inv_deliver[of "ev_sigs ev" w1 srv1] dl i1 by simp
    have t2: "sends (trace w2) = sends (trace w) @ D1"
      using deliver_keeps[of "ev_sigs ev" w1 srv1] dl t1 by simp
    show ?thesis
    proof (cases brk)
      case True
      have "event_loop (ev # evs) (w, srv) = (True, w2, srv2)"
        using \<open>running srv\<close> it dl True by simp
      moreover have "\<exists>D. sends (trace w2) = sends (trace w) @ D \<and> (\<forall>p \<in> set D. snd p = MSG_DATA)"
        using t2 d1 by (intro exI[of _ D1] conjI)
      ultimately show ?thesis using i2 by simp
    next
      case False
      have e: "event_loop (ev # evs) (w, srv) = event_loop evs (w2, srv2)"
        using \<open>running srv\<close> it dl False by simp
      from Cons.IH[OF i2] obtain D2 where
        i3: "srv_inv (snd (event_loop evs (w2, srv2)))"
        and t3: "sends (trace (fst (snd (event_loop evs (w2, srv2))))) = sends (trace w2) @ D2"
        and d2: "\<forall>p \<in> set D2. snd p = MSG_DATA" by auto
      have "sends (trace (fst (snd (event_loop evs (w2, srv2))))) = sends (trace w) @ (D1 @ D2)"
        using t2 t3 by simp
      moreover have "\<forall>p \<in> set (D1 @ D2). snd p = MSG_DATA" using d1 d2 by auto
      ultimately have "\<exists>D. sends (trace (fst (snd (event_loop evs (w2, srv2))))) = sends (trace w) @ D
                          \<and> (\<forall>p \<in> set D. snd p = MSG_DATA)"
        by (intro exI[of _ "D1 @ D2"] conjI)
      with i3 show ?thesis unfolding e by simp
    qed
  qed
qed

text \<open>
  Claim C4. \<^verbatim>\<open>run_server\<close> enters its loop with no client attached. After any sequence of
  passes of the loop the count of attached clients lies between 0 and \<^verbatim>\<open>MAX_CLIENTS\<close> = 16,
  also right after the accept step of a further pass. An accept at a count of 16 or more
  closes the new descriptor and changes nothing else. Whenever the accept step changes the
  count, the new connection has delivered a frame of type \<^verbatim>\<open>HELLO\<close> with a payload of 4
  bytes, the count has grown by one, and the info file is written with the new count.
\<close>

theorem client_count_bounded:
  assumes "num_clients srv0 = 0"
  shows "0 \<le> num_clients (snd (snd (event_loop evs (w0, srv0)))) \<and>
         num_clients (snd (snd (event_loop evs (w0, srv0)))) \<le> MAX_CLIENTS \<and>
         MAX_CLIENTS = 16 \<and>
         (\<forall>ev. num_clients (snd (server_accept ev (snd (event_loop evs (w0, srv0))))) \<le> MAX_CLIENTS) \<and>
         (\<forall>ev w srv c. ev_accept ev = Some c \<and> MAX_CLIENTS \<le> num_clients srv \<longrightarrow>
            server_accept ev (w, srv) = (emit w (Close (lowest_free (open_fds w))), srv)) \<and>
         (\<forall>ev w srv. num_clients (snd (server_accept ev (w, srv))) \<noteq> num_clients srv \<longrightarrow>
            (\<exists>c data. ev_accept ev = Some c \<and> num_clients srv < MAX_CLIENTS \<and>
               fst (recv_msg (ev_malloc ev 0) c) = Some (MSG_HELLO, data, 4) \<and> length data = 4 \<and>
               num_clients (snd (server_accept ev (w, srv))) = num_clients srv + 1 \<and>
               info_counts (trace (fst (server_accept ev (w, srv)))) =
                 info_counts (trace w) @ [num_clients srv + 1]))"
proof -
  have i0: "srv_inv (w0, srv0)"
    using assms by (simp add: srv_inv_def clients_def MAX_CLIENTS_def)
  obtain w1 srv1 where e: "snd (event_loop evs (w0, srv0)) = (w1, srv1)" by force
  from event_loop_inv[OF i0, of evs] e have i1: "srv_inv (w1, srv1)" by simp
  then have b: "0 \<le> num_clients srv1" "num_clients srv1 \<le> MAX_CLIENTS"
    by (simp_all add: srv_inv_def)
  have a: "num_clients (snd (server_accept ev (w1, srv1))) \<le> MAX_CLIENTS" for ev
    using srv_inv_accept[OF i1, of ev] by (simp add: srv_inv_def)
  have full: "\<forall>ev w srv c. ev_accept ev = Some c \<and> MAX_CLIENTS \<le> num_clients srv \<longrightarrow>
            server_accept ev (w, srv) = (emit w (Close (lowest_free (open_fds w))), srv)"
    using accept_full by blast
  have cnt: "\<forall>ev w srv. num_clients (snd (server_accept ev (w, srv))) \<noteq> num_clients srv \<longrightarrow>
            (\<exists>c data. ev_accept ev = Some c \<and> num_clients srv < MAX_CLIENTS \<and>
               fst (recv_msg (ev_malloc ev 0) c) = Some (MSG_HELLO, data, 4) \<and> length data = 4 \<and>
               num_clients (snd (server_accept ev (w, srv))) = num_clients srv + 1 \<and>
               info_counts (trace (fst (server_accept ev (w, srv)))) =
                 info_counts (trace w) @ [num_clients srv + 1])"
    using accept_counts by blast
  show ?thesis
    unfolding e using b a full cnt by (simp add: MAX_CLIENTS_def)
qed

theorem client_count_bounded_witness:
  "(let srv0 = \<lparr>name = ''s'', command = ''bash'', pty_master = 3, child_pid = 9, listen_fd = 4,
                 client_fds = (\<lambda>i. 0), num_clients = 0, created = 0, child_exit_code = 0,
                 running = True\<rparr>;
        w0 = \<lparr>conns = [], trace = [], self_pid = 1, uid = 0\<rparr>;
        helo = \<lparr>rd = [Chunk [5, 0, 0, 0, 4, 0, 80, 0, 24]], wr = [], out = []\<rparr>;
        ev = \<lparr>ev_sigs = [], ev_poll = PollOk, ev_listen_in = True, ev_pty_in = False,
               ev_pty_hup = False, ev_client_in = (\<lambda>i. False), ev_client_hup = (\<lambda>i. False),
               ev_accept = Some helo, ev_malloc = (\<lambda>i. True)\<rparr>
    in num_clients srv0 = 0 \<and>
       num_clients (snd (snd (event_loop [ev] (w0, srv0)))) \<le> 16 \<and>
       num_clients (snd (server_accept ev (w0, srv0))) = 1 \<and>
       server_accept ev (w0, srv0\<lparr>num_clients := 16\<rparr>)
         = (emit w0 (Close 0), srv0\<lparr>num_clients := 16\<rparr>))"
proof -
  let ?srv0 = "\<lparr>name = ''s'', command = ''bash'', pty_master = 3, child_pid = 9, listen_fd = 4,
                 client_fds = (\<lambda>i. 0), num_clients = 0, created = 0, child_exit_code = 0,
                 running = True\<rparr>"
  let ?w0 = "\<lparr>conns = [], trace = [], self_pid = 1, uid = 0\<rparr>"
  let ?helo = "\<lparr>rd = [Chunk [5, 0, 0, 0, 4, 0, 80, 0, 24]], wr = [], out = []\<rparr>"
  let ?ev = "\<lparr>ev_sigs = [], ev_poll = PollOk, ev_listen_in = True, ev_pty_in = False,
               ev_pty_hup = False, ev_client_in = (\<lambda>i. False), ev_client_hup = (\<lambda>i. False),
               ev_accept = Some ?helo, ev_malloc = (\<lambda>i. True)\<rparr>"
  have z: "num_clients ?srv0 = 0" by simp
  note T = client_count_bounded[OF z, of "[?ev]" ?w0]
  have lf: "lowest_free (open_fds ?w0) = 0"
    by (simp add: lowest_free_def open_fds_def)
  have hf: "hello_frame True ?helo"
    by code_simp
  have "ev_accept ?ev = Some ?helo" "num_clients ?srv0 < MAX_CLIENTS" "hello_frame (ev_malloc ?ev 0) ?helo"
    using hf by (simp_all add: MAX_CLIENTS_def)
  from accept_hello[OF this, of ?w0] have one: "num_clients (snd (server_accept ?ev (?w0, ?srv0))) = 1"
    by auto
  have "ev_accept ?ev = Some ?helo \<and> MAX_CLIENTS \<le> num_clients (?srv0\<lparr>num_clients := 16\<rparr>)"
    by (simp add: MAX_CLIENTS_def)
  with T have "server_accept ?ev (?w0, ?srv0\<lparr>num_clients := 16\<rparr>)
         = (emit ?w0 (Close (lowest_free (open_fds ?w0))), ?srv0\<lparr>num_clients := 16\<rparr>)"
    by blast
  with T one show ?thesis
    unfolding Let_def lf by (simp add: MAX_CLIENTS_def)
qed

section \<open>The frames of a run of the daemon\<close>

lemma capture_keeps:
  "client_fds (capture_exit_code st srv) = client_fds srv"
  "num_clients (capture_exit_code st srv) = num_clients srv"
  by (simp_all add: capture_exit_code_def)

lemma shutdown_child_keeps:
  "open_fds (fst (shutdown_child e (w, srv))) = open_fds w \<and>
   sends (trace (fst (shutdown_child e (w, srv)))) = sends (trace w) \<and>
   client_fds (snd (shutdown_child e (w, srv))) = client_fds srv \<and>
   num_clients (snd (shutdown_child e (w, srv))) = num_clients srv"
proof (cases "child_pid srv > 0")
  case False
  then show ?thesis by (simp add: shutdown_child_def)
next
  case True
  let ?w1 = "emit (emit w (Kill (child_pid srv) SIGHUP)) (Usleep 50000)"
  obtain w2 srv2 where d1: "deliver (sh_sigs1 e) (?w1, srv) = (w2, srv2)" by force
  from deliver_keeps[of "sh_sigs1 e" ?w1 srv] d1 have
    k2: "open_fds w2 = open_fds w" "sends (trace w2) = sends (trace w)"
        "client_fds srv2 = client_fds srv" "num_clients srv2 = num_clients srv"
    by (simp_all add: emit_simps sends_append)
  let ?w3 = "emit w2 (Waitpid (child_pid srv2) True)"
  let ?w4 = "emit (emit ?w3 (Kill (child_pid srv2) SIGTERM)) (Usleep 100000)"
  obtain w5 srv5 where d2: "deliver (sh_sigs2 e) (?w4, srv2) = (w5, srv5)" by force
  from deliver_keeps[of "sh_sigs2 e" ?w4 srv2] d2 k2 have
    k5: "open_fds w5 = open_fds w" "sends (trace w5) = sends (trace w)"
        "client_fds srv5 = client_fds srv" "num_clients srv5 = num_clients srv"
    by (simp_all add: emit_simps sends_append)
  show ?thesis
    using True d1 d2 k2 k5
    by (simp add: shutdown_child_def Let_def emit_simps sends_append capture_keeps)
qed

lemma close_all_sends: "sends (trace (close_all fds w)) = sends (trace w)"
  by (induction fds arbitrary: w) (simp_all add: sys_close_simps sends_append)

lemma server_cleanup_sends:
  "sends (trace (fst (server_cleanup (w, srv)))) = sends (trace w)"
  by (simp add: server_cleanup_def Let_def cleanup_session_files_def emit_simps sys_close_simps
      sends_append close_all_sends)

lemma ensure_socket_dir_sends:
  "sends (trace (snd (ensure_socket_dir st w))) = sends (trace w)"
  by (simp add: ensure_socket_dir_def Let_def emit_simps sends_append split: option.splits)

lemma create_listen_socket_sends:
  "sends (trace (snd (create_listen_socket le w path))) = sends (trace w)"
  by (simp add: create_listen_socket_def Let_def sys_open_eq emit_simps sys_close_simps sends_append)

lemma exit_broadcast_sends:
  "sends (trace (fst (server_exit_broadcast (w, srv)))) =
     sends (trace w) @ map (\<lambda>fd. (fd, MSG_EXIT)) (rev (clients srv))"
  by (simp add: server_exit_broadcast_def server_broadcast_sends)

lemma clients_cong:
  "client_fds srv' = client_fds srv \<Longrightarrow> num_clients srv' = num_clients srv \<Longrightarrow>
   clients srv' = clients srv"
  by (simp add: clients_def)

lemma sends_decomp_refl:
  "s' = s \<Longrightarrow> \<exists>D E. s' = s @ D @ E \<and> (\<forall>p \<in> set D. snd p = MSG_DATA) \<and>
     (\<forall>p \<in> set E. snd p = MSG_EXIT) \<and> distinct (map fst E)"
  by (intro exI[of _ "[]"]) simp

lemma run_server_sends:
  "\<exists>D E. sends (trace (snd (run_server e w nm cmd))) = sends (trace w) @ D @ E \<and>
     (\<forall>p \<in> set D. snd p = MSG_DATA) \<and> (\<forall>p \<in> set E. snd p = MSG_EXIT) \<and>
     distinct (map fst E)"
proof -
  obtain ok1 w1 where es: "ensure_socket_dir (se_stat e) w = (ok1, w1)" by force
  have t1: "sends (trace w1) = sends (trace w)"
    using ensure_socket_dir_sends[of "se_stat e" w] es by simp
  show ?thesis
  proof (cases ok1)
    case False
    with es have "run_server e w nm cmd = (Some 1, w1)" by (simp add: run_server_def)
    with t1 show ?thesis by (intro sends_decomp_refl) simp
  next
    case True
    note ok1 = True
    show ?thesis
    proof (cases "se_forkpty e")
      case None
      with es ok1 have "run_server e w nm cmd = (Some 1, emit w1 (Perror ''forkpty''))"
        by (simp add: run_server_def)
      with t1 show ?thesis by (intro sends_decomp_refl) (simp add: emit_simps sends_append)
    next
      case (Some cp)
      obtain child pty where cp: "cp = (child, pty)" by force
      let ?pty_fd = "lowest_free (open_fds w1)"
      let ?w2 = "w1\<lparr>conns := conns w1 @ [(?pty_fd, pty)]\<rparr>"
      have so: "sys_open w1 pty = (?pty_fd, ?w2)" by (rule sys_open_eq)
      have t2: "sends (trace ?w2) = sends (trace w)" using t1 by simp
      let ?spath = "socket_path (uid ?w2) nm"
      obtain lfd w3 where cl: "create_listen_socket (se_listen e) ?w2 ?spath = (lfd, w3)" by force
      have t3: "sends (trace w3) = sends (trace w)"
        using create_listen_socket_sends[of "se_listen e" ?w2 ?spath] cl t2 by simp
      show ?thesis
      proof (cases "lfd < 0")
        case True
        with es ok1 Some cp so cl have "run_server e w nm cmd =
           (Some 1, emit (emit (emit w3 (Stderr (''Failed to create socket: '' @ ?spath @ nl)))
                        (Kill child SIGTERM)) (Waitpid child False))"
          by (simp add: run_server_def)
        with t3 show ?thesis by (intro sends_decomp_refl) (simp add: emit_simps sends_append)
      next
        case False
        let ?srv = "\<lparr>name = nm, command = (if cmd = [] then ''bash'' else cmd),
                      pty_master = ?pty_fd, child_pid = child, listen_fd = lfd,
                      client_fds = se_junk e, num_clients = 0, created = se_now e,
                      child_exit_code = 0, running = True\<rparr>"
        let ?w4 = "write_pid_file w3 (pid_path (uid w3) nm) (self_pid w3)"
        let ?w5 = "write_info_file ?w4 (info_path (uid ?w4) nm) (self_pid ?w4) 0
                     (created ?srv) (command ?srv)"
        let ?w6 = "emit (emit (emit ?w5 (SignalHandle SIGCHLD)) (SignalHandle SIGTERM))
                     (SignalIgnore SIGPIPE)"
        have t6: "sends (trace ?w6) = sends (trace w)"
          using t3 by (simp add: emit_simps write_info_file_simps write_pid_file_def sends_append)
        have i6: "srv_inv (?w6, ?srv)"
          by (simp add: srv_inv_def clients_def MAX_CLIENTS_def)
        obtain w0' srv0' where dl: "deliver (se_sigs0 e) (?w6, ?srv) = (w0', srv0')" by force
        have i0: "srv_inv (w0', srv0')"
          using srv_inv_deliver[of "se_sigs0 e" ?w6 ?srv] i6 dl by simp
        have t0: "sends (trace w0') = sends (trace w)"
          using deliver_keeps[of "se_sigs0 e" ?w6 ?srv] dl t6 by simp
        obtain left wl srvl where el: "event_loop (se_events e) (w0', srv0') = (left, wl, srvl)"
          by (metis prod_cases3)
        from event_loop_inv[OF i0, of "se_events e"] el t0 obtain D where
          il: "srv_inv (wl, srvl)" and tl: "sends (trace wl) = sends (trace w) @ D"
          and dd: "\<forall>p \<in> set D. snd p = MSG_DATA" by auto
        show ?thesis
        proof (cases left)
          case False
          with es ok1 Some cp so cl \<open>\<not> lfd < 0\<close> dl el
          have "run_server e w nm cmd = (None, wl)"
            by (simp add: run_server_def)
          with tl dd show ?thesis
            by (intro exI[of _ D] exI[of _ "[]"]) simp
        next
          case True
          obtain ws ss where sh: "shutdown_child (se_shutdown e) (wl, srvl) = (ws, ss)" by force
          from shutdown_child_keeps[of "se_shutdown e" wl srvl] sh have
            ks: "sends (trace ws) = sends (trace wl)" "client_fds ss = client_fds srvl"
                "num_clients ss = num_clients srvl" by simp_all
          have cs: "clients ss = clients srvl" using ks by (intro clients_cong)
          obtain wx sx where xb: "server_exit_broadcast (ws, ss) = (wx, sx)" by force
          have tx: "sends (trace wx) = sends (trace w) @ D @ map (\<lambda>fd. (fd, MSG_EXIT)) (rev (clients srvl))"
            using exit_broadcast_sends[of ws ss] xb ks tl cs by simp
          obtain wc sc where cu: "server_cleanup (wx, sx) = (wc, sc)" by force
          have tc: "sends (trace wc) = sends (trace wx)"
            using server_cleanup_sends[of wx sx] cu by simp
          from es ok1 Some cp so cl \<open>\<not> lfd < 0\<close> dl el True sh xb cu
          have "run_server e w nm cmd = (Some (child_exit_code sc), wc)"
            by (simp add: run_server_def)
          moreover have "distinct (map fst (map (\<lambda>fd. (fd, MSG_EXIT)) (rev (clients srvl))))"
            using il by (simp add: srv_inv_def comp_def)
          moreover have "\<forall>p \<in> set (map (\<lambda>fd. (fd, MSG_EXIT)) (rev (clients srvl))). snd p = MSG_EXIT"
            by simp
          ultimately show ?thesis
            using tx tc dd
            by (intro exI[of _ D] exI[of _ "map (\<lambda>fd. (fd, MSG_EXIT)) (rev (clients srvl))"]) simp
        qed
      qed
    qed
  qed
qed

lemma exit_not_data: "MSG_DATA \<noteq> MSG_EXIT"
  by (simp add: MSG_DATA_def MSG_EXIT_def)

lemma sends_final:
  assumes dd: "\<forall>p \<in> set D. snd p = MSG_DATA" and di: "distinct (map fst E)"
      and ij: "i < j" "j < length (D @ E)" and ex: "snd ((D @ E) ! i) = MSG_EXIT"
  shows "fst ((D @ E) ! j) \<noteq> fst ((D @ E) ! i)"
proof -
  have ge: "length D \<le> i"
  proof (rule ccontr)
    assume "\<not> length D \<le> i"
    then have "i < length D" by simp
    then have "(D @ E) ! i \<in> set D" by (simp add: nth_append)
    with dd ex exit_not_data show False by auto
  qed
  let ?i = "i - length D" and ?j = "j - length D"
  have b: "?i < length E" "?j < length E" "?i \<noteq> ?j" using ge ij by auto
  have "(D @ E) ! i = E ! ?i" "(D @ E) ! j = E ! ?j" using ge ij by (simp_all add: nth_append)
  moreover have "map fst E ! ?j \<noteq> map fst E ! ?i"
    using nth_eq_iff_index_eq[OF di, of ?j ?i] b by (simp del: nth_map)
  moreover have "map fst E ! ?j = fst (E ! ?j)" "map fst E ! ?i = fst (E ! ?i)"
    using b by simp_all
  ultimately show ?thesis by simp
qed

text \<open>
  Claim C2. The frames that a run of \<^verbatim>\<open>run_server\<close> sends are, in order, frames of type
  \<^verbatim>\<open>DATA\<close> followed by frames of type \<^verbatim>\<open>EXIT\<close>, and the \<^verbatim>\<open>EXIT\<close> frames go to pairwise
  different descriptors. So no frame to a descriptor follows an \<^verbatim>\<open>EXIT\<close> frame to it.
\<close>

theorem exit_frame_is_final:
  "\<exists>D E. sends (trace (snd (run_server e w nm cmd))) = sends (trace w) @ D @ E \<and>
     (\<forall>p \<in> set D. snd p = MSG_DATA) \<and> (\<forall>p \<in> set E. snd p = MSG_EXIT) \<and>
     distinct (map fst E) \<and>
     (\<forall>i j. i < j \<and> j < length (D @ E) \<and> snd ((D @ E) ! i) = MSG_EXIT \<longrightarrow>
        fst ((D @ E) ! j) \<noteq> fst ((D @ E) ! i))"
proof -
  from run_server_sends[of e w nm cmd] obtain D E where
    s: "sends (trace (snd (run_server e w nm cmd))) = sends (trace w) @ D @ E"
    and dd: "\<forall>p \<in> set D. snd p = MSG_DATA" and ee: "\<forall>p \<in> set E. snd p = MSG_EXIT"
    and di: "distinct (map fst E)" by auto
  have "\<forall>i j. i < j \<and> j < length (D @ E) \<and> snd ((D @ E) ! i) = MSG_EXIT \<longrightarrow>
        fst ((D @ E) ! j) \<noteq> fst ((D @ E) ! i)"
    using sends_final[OF dd di] by blast
  with s dd ee di show ?thesis by blast
qed

lemma wit_loop: "fst (event_loop (se_events wit_env) (wit_w6, wit_srv))"
  by code_simp

lemma wit_tail:
  "sends (trace (fst (server_cleanup (server_exit_broadcast
      (shutdown_child (se_shutdown wit_env) (snd (event_loop (se_events wit_env) (wit_w6, wit_srv))))))))
   = [(6, MSG_DATA), (5, MSG_DATA), (6, MSG_EXIT), (5, MSG_EXIT)]"
  by code_simp

lemma wit_open: "sys_open wit_w1 \<lparr>rd = [Chunk [104, 105]], wr = [], out = []\<rparr> = (3, wit_w2)"
  by code_simp

lemma wit_stage1: "ensure_socket_dir (se_stat wit_env) wit_world = (True, wit_w1)"
  by code_simp

lemma wit_stage2:
  "create_listen_socket (se_listen wit_env) wit_w2 (socket_path 0 ''s'') = (4, wit_w3)"
  by code_simp

lemma wit_stage3:
  "emit (emit (emit (write_info_file (emit wit_w3 (WritePid (pid_path 0 ''s'') 50))
       (info_path 0 ''s'') 50 0 0 ''bash'') (SignalHandle SIGCHLD)) (SignalHandle SIGTERM))
     (SignalIgnore SIGPIPE) = wit_w6"
  by code_simp

lemma wit_proj:
  "se_forkpty wit_env = Some (100, \<lparr>rd = [Chunk [104, 105]], wr = [], out = []\<rparr>)"
  "se_sigs0 wit_env = []" "se_junk wit_env = (\<lambda>i. 0)" "se_now wit_env = 0"
  by (simp_all add: wit_env_def)

lemma wit_ids: "uid wit_w2 = 0" "uid wit_w3 = 0" "self_pid wit_w3 = 50"
  by (simp_all add: wit_w2_def wit_w3_def)

lemma wit_run_eq:
  "snd (run_server wit_env wit_world ''s'' []) =
     fst (server_cleanup (server_exit_broadcast
       (shutdown_child (se_shutdown wit_env) (snd (event_loop (se_events wit_env) (wit_w6, wit_srv))))))"
proof -
  have srv: "\<lparr>name = ''s'', command = ''bash'', pty_master = 3, child_pid = 100, listen_fd = 4,
               client_fds = (\<lambda>i. 0), num_clients = 0, created = 0, child_exit_code = 0,
               running = True\<rparr> = wit_srv"
    by (simp add: wit_srv_def)
  have sp: "created wit_srv = 0" "command wit_srv = ''bash''"
    by (simp_all add: wit_srv_def)
  show ?thesis
    unfolding run_server_def wit_stage1 wit_proj
    by (simp add: wit_open wit_stage2 wit_ids write_pid_file_def emit_simps wit_stage3 srv sp
        wit_loop split_beta Let_def)
qed

theorem exit_frame_is_final_witness:
  "sends (trace (snd (run_server wit_env wit_world ''s'' []))) =
     [(6, MSG_DATA), (5, MSG_DATA), (6, MSG_EXIT), (5, MSG_EXIT)] \<and>
   snd ([(6 :: int, MSG_DATA), (5, MSG_DATA), (6, MSG_EXIT), (5, MSG_EXIT)] ! 2) = MSG_EXIT \<and>
   fst ([(6, MSG_DATA), (5, MSG_DATA), (6 :: int, MSG_EXIT), (5, MSG_EXIT)] ! 3) \<noteq>
   fst ([(6, MSG_DATA), (5, MSG_DATA), (6 :: int, MSG_EXIT), (5, MSG_EXIT)] ! 2)"
proof -
  let ?ss = "[(6 :: int, MSG_DATA), (5, MSG_DATA), (6, MSG_EXIT), (5, MSG_EXIT)]"
  have run: "sends (trace (snd (run_server wit_env wit_world ''s'' []))) = ?ss"
    unfolding wit_run_eq by (rule wit_tail)
  from exit_frame_is_final[of wit_env wit_world "''s''" "[]"] obtain D E where
    s: "sends (trace (snd (run_server wit_env wit_world ''s'' []))) = sends (trace wit_world) @ D @ E"
    and fin: "\<forall>i j. i < j \<and> j < length (D @ E) \<and> snd ((D @ E) ! i) = MSG_EXIT \<longrightarrow>
        fst ((D @ E) ! j) \<noteq> fst ((D @ E) ! i)"
    by (elim exE conjE)
  have de: "D @ E = ?ss" using s run by (simp add: wit_world_def)
  have e2: "snd (?ss ! 2) = MSG_EXIT" by simp
  have "(2 :: nat) < 3 \<and> 3 < length ?ss \<and> snd (?ss ! 2) = MSG_EXIT" by simp
  with fin[unfolded de] have "fst (?ss ! 3) \<noteq> fst (?ss ! 2)" by blast
  with run e2 show ?thesis by blast
qed

section \<open>Session names at the entry points\<close>

lemma name_chars_ok_iff: "name_chars_ok nm \<longleftrightarrow> set nm \<subseteq> spec_name_class"
  by (induction nm) (auto simp: spec_name_class_def)

lemma valid_session_name_iff: "valid_session_name nm \<longleftrightarrow> spec_valid_name nm"
  by (cases nm) (auto simp: valid_session_name_def spec_valid_name_def name_chars_ok_iff MAX_NAME_LEN_def)

lemma slash_not_in_class: "CHR ''/'' \<notin> spec_name_class" "CHR 0x00 \<notin> spec_name_class"
  by (simp_all add: spec_name_class_def)

text \<open>
  Claim C3. \<^verbatim>\<open>valid_session_name\<close> accepts exactly the names of length 1 to 64 over the
  characters \<^verbatim>\<open>[A-Za-z0-9._-]\<close> other than \<^verbatim>\<open>.\<close> and \<^verbatim>\<open>..\<close>. The empty name, \<^verbatim>\<open>.\<close>, \<^verbatim>\<open>..\<close>,
  every name of 65 characters and every name that contains \<^verbatim>\<open>/\<close> or a NUL byte are invalid.
  On an invalid name each of \<^verbatim>\<open>cmd_create\<close>, \<^verbatim>\<open>cmd_attach\<close>, \<^verbatim>\<open>cmd_open\<close> and \<^verbatim>\<open>cmd_kill\<close>
  returns 1, and the only thing it does is to print the diagnostic to standard error.
\<close>

theorem invalid_names_refused:
  "(valid_session_name nm \<longleftrightarrow> spec_valid_name nm) \<and>
   \<not> valid_session_name [] \<and> \<not> valid_session_name ''.'' \<and> \<not> valid_session_name ''..'' \<and>
   (length nm = 65 \<longrightarrow> \<not> valid_session_name nm) \<and>
   (CHR ''/'' \<in> set nm \<longrightarrow> \<not> valid_session_name nm) \<and>
   (CHR 0x00 \<in> set nm \<longrightarrow> \<not> valid_session_name nm) \<and>
   (\<not> valid_session_name nm \<longrightarrow>
      cmd_create ce w nm cmd = (Return 1, emit w (Stderr (invalid_name_long nm))) \<and>
      cmd_attach ae w nm =
        (Return 1, emit w (Stderr (''Invalid session name '' @ sq @ nm @ sq @ nl))) \<and>
      cmd_open oe w nm cmd = (Return 1, emit w (Stderr (invalid_name_long nm))) \<and>
      cmd_kill ke w nm =
        (Return 1, emit w (Stderr (''Invalid session name '' @ sq @ nm @ sq @ nl))))"
proof -
  have a: "\<not> valid_session_name []" "\<not> valid_session_name ''.''" "\<not> valid_session_name ''..''"
    by (simp_all add: valid_session_name_def)
  have b: "length nm = 65 \<longrightarrow> \<not> valid_session_name nm"
    by (simp add: valid_session_name_def MAX_NAME_LEN_def)
  have c: "CHR ''/'' \<in> set nm \<longrightarrow> \<not> valid_session_name nm"
    "CHR 0x00 \<in> set nm \<longrightarrow> \<not> valid_session_name nm"
    using slash_not_in_class by (auto simp: valid_session_name_iff spec_valid_name_def)
  have d: "\<not> valid_session_name nm \<longrightarrow>
      cmd_create ce w nm cmd = (Return 1, emit w (Stderr (invalid_name_long nm))) \<and>
      cmd_attach ae w nm =
        (Return 1, emit w (Stderr (''Invalid session name '' @ sq @ nm @ sq @ nl))) \<and>
      cmd_open oe w nm cmd = (Return 1, emit w (Stderr (invalid_name_long nm))) \<and>
      cmd_kill ke w nm =
        (Return 1, emit w (Stderr (''Invalid session name '' @ sq @ nm @ sq @ nl)))"
    by (simp add: cmd_create_def cmd_attach_def attach_setup_def cmd_open_def cmd_kill_def)
  show ?thesis
    using valid_session_name_iff[of nm] a b c d by blast
qed

theorem invalid_names_refused_witness:
  "valid_session_name ''dev-1.x'' \<and> spec_valid_name ''dev-1.x'' \<and>
   CHR ''/'' \<in> set ''../etc'' \<and> \<not> valid_session_name ''../etc'' \<and>
   cmd_kill \<lparr>ke_pid = 0, ke_alive = (\<lambda>i. False)\<rparr> wit_world ''../etc'' =
     (Return 1, emit wit_world (Stderr (''Invalid session name '' @ sq @ ''../etc'' @ sq @ nl))) \<and>
   length (replicate 65 CHR ''a'') = 65 \<and> \<not> valid_session_name (replicate 65 CHR ''a'')"
proof -
  have v: "valid_session_name ''dev-1.x''"
    by (simp add: valid_session_name_def MAX_NAME_LEN_def)
  have s: "CHR ''/'' \<in> set ''../etc''" by simp
  note c1 = invalid_names_refused[THEN conjunct1]
  note c5 = invalid_names_refused[THEN conjunct2, THEN conjunct2, THEN conjunct2, THEN conjunct2,
              THEN conjunct1, rule_format]
  note c6 = invalid_names_refused[THEN conjunct2, THEN conjunct2, THEN conjunct2, THEN conjunct2,
              THEN conjunct2, THEN conjunct1, rule_format]
  note c8 = invalid_names_refused[THEN conjunct2, THEN conjunct2, THEN conjunct2, THEN conjunct2,
              THEN conjunct2, THEN conjunct2, THEN conjunct2, rule_format,
              THEN conjunct2, THEN conjunct2, THEN conjunct2]
  from c1[of "''dev-1.x''"] v have sv: "spec_valid_name ''dev-1.x''" by simp
  from c6[OF s] have nv: "\<not> valid_session_name ''../etc''" .
  have l: "\<not> valid_session_name (replicate 65 CHR ''a'')"
    by (rule c5) simp
  show ?thesis
    using v sv s nv l c8[OF nv, of "\<lparr>ke_pid = 0, ke_alive = (\<lambda>i. False)\<rparr>" wit_world] by simp
qed

section \<open>Properties of the attach client\<close>

lemma has_detach_iff: "has_detach buf \<longleftrightarrow> DETACH_KEY \<in> set buf"
  by (induction buf) auto

lemma term_restore_eq:
  "term_restore (w, cs) =
     (if termios_saved cs then emit w (Tcsetattr False) else w, cs\<lparr>termios_saved := False\<rparr>)"
  by (simp add: term_restore_def)

lemma client_winch_keeps:
  "cl_running (snd (client_winch ev sock (w, cs))) = cl_running cs"
  "exit_code (snd (client_winch ev sock (w, cs))) = exit_code cs"
  "termios_saved (snd (client_winch ev sock (w, cs))) = termios_saved cs"
  by (simp_all add: client_winch_def)

lemma note_winch_keeps:
  "cl_running (note_winch ev cs) = cl_running cs"
  "exit_code (note_winch ev cs) = exit_code cs"
  "termios_saved (note_winch ev cs) = termios_saved cs"
  by (simp_all add: note_winch_def)

lemma client_stdin_detach:
  assumes rd: "read_fd w 0 BUF_SIZE = (RdBytes buf, w2)" and key: "DETACH_KEY \<in> set buf"
  shows "client_stdin nm sock (w, cs) =
     (emit (if termios_saved cs
            then emit (snd (send_msg_fd w2 sock MSG_DETACH [] 0)) (Tcsetattr False)
            else snd (send_msg_fd w2 sock MSG_DETACH [] 0))
        (Stderr (crlf @ ''[detached from '' @ sq @ nm @ sq @ '']'' @ crlf)),
      cs\<lparr>cl_running := False, termios_saved := False\<rparr>)"
proof -
  have ne: "buf \<noteq> []" using key by auto
  have hd: "has_detach buf" using key by (simp add: has_detach_iff)
  show ?thesis
    using rd ne hd by (simp add: client_stdin_def term_restore_eq split_beta)
qed

lemma client_stdin_exit_code:
  "exit_code (snd (client_stdin nm sock (w, cs))) = exit_code cs"
proof -
  obtain r w1 where rd: "read_fd w 0 BUF_SIZE = (r, w1)" by force
  show ?thesis
  proof (cases r)
    case (RdBytes buf)
    with rd show ?thesis
      by (simp add: client_stdin_def term_restore_eq split_beta)
  qed (use rd in \<open>simp_all add: client_stdin_def\<close>)
qed

lemma client_sock_exit_code:
  "cl_running (snd (snd (client_sock sock ev (w, cs)))) \<longrightarrow>
   exit_code (snd (snd (client_sock sock ev (w, cs)))) = exit_code cs"
proof -
  obtain r w1 where rc: "recv_msg_fd (ce_malloc ev) w sock = (r, w1)" by force
  show ?thesis
  proof (cases r)
    case None
    with rc show ?thesis by (simp add: client_sock_def)
  next
    case (Some f)
    obtain t data len where "f = (t, data, len)" by (cases f) auto
    with rc Some show ?thesis by (simp add: client_sock_def)
  qed
qed

lemma client_sock_exit:
  assumes "recv_msg_fd (ce_malloc ev) w sock = (Some (MSG_EXIT, data, len), w1)"
  shows "client_sock sock ev (w, cs) =
     (False, w1, (if len \<ge> 1 then cs\<lparr>exit_code := uint (data ! 0)\<rparr> else cs)\<lparr>cl_running := False\<rparr>)"
  using assms by (simp add: client_sock_def MSG_EXIT_def MSG_DATA_def)


lemma write_all_prefix: "\<exists>k. fst (snd (write_all s bs)) = take k bs"
proof (induction s bs rule: write_all.induct)
  case (3 n s b bs)
  define k where "k = min n (length (b # bs))"
  from 3[OF k_def] obtain k' where
    k': "fst (snd (write_all s (drop k (b # bs)))) = take k' (drop k (b # bs))" by blast
  have "fst (snd (write_all (Wrote n # s) (b # bs))) =
          take k (b # bs) @ fst (snd (write_all s (drop k (b # bs))))"
    by (simp add: k_def split_beta Let_def del: take_Suc_Cons drop_Suc_Cons)
  also have "\<dots> = take (k + k') (b # bs)"
    unfolding k' by (simp only: take_add)
  finally show ?case by blast
next
  case (1 s)
  show ?case by simp
next
  case (2 b bs)
  show ?case by (intro exI[of _ 0]) simp
next
  case (4 s b bs)
  then show ?case by simp
next
  case (5 r s b bs)
  show ?case
  proof (cases "r \<le> 0")
    case True
    then show ?thesis by (intro exI[of _ 0]) simp
  next
    case False
    with 5 show ?thesis by simp
  qed
next
  case (6 s b bs)
  show ?case by (intro exI[of _ 0]) simp
qed

lemma send_msg_empty_out:
  "\<exists>k. out (snd (send_msg c t d 0)) = out c @ take k (msg_header t 0)"
proof -
  obtain k where "fst (snd (write_all (wr c) (msg_header t 0))) = take k (msg_header t 0)"
    using write_all_prefix by blast
  then show ?thesis
    by (intro exI[of _ k]) (simp add: send_msg_def conn_write_all_def split_beta)
qed

lemma fd_out_send_empty:
  "\<exists>k. fd_out (snd (send_msg_fd w fd t d 0)) fd = fd_out w fd @ take k (msg_header t 0)"
proof (cases "map_of (conns w) fd")
  case None
  then show ?thesis
    by (intro exI[of _ 0]) (simp add: fd_out_def map_of_send_msg_fd)
next
  case (Some c)
  obtain k where "out (snd (send_msg c t d 0)) = out c @ take k (msg_header t 0)"
    using send_msg_empty_out by blast
  with Some show ?thesis
    by (intro exI[of _ k]) (simp add: fd_out_def map_of_send_msg_fd)
qed

lemma fd_out_emit: "fd_out (emit w x) fd = fd_out w fd"
  by (simp add: fd_out_def emit_def)

lemma client_iter_exit_code:
  "cl_running (snd (snd (client_iter nm sock ev (w, cs)))) \<longrightarrow>
   exit_code (snd (snd (client_iter nm sock ev (w, cs)))) = exit_code cs"
proof (cases "ce_poll ev")
  case PollEintr
  then show ?thesis
    by (simp add: client_iter_def client_winch_keeps note_winch_keeps)
next
  case PollFail
  then show ?thesis
    by (simp add: client_iter_def note_winch_keeps)
next
  case PollOk
  define wc1 where "wc1 = client_winch ev sock (w, note_winch ev cs)"
  define wc2 where "wc2 = (if ce_stdin_in ev then client_stdin nm sock wc1 else wc1)"
  have e1: "exit_code (snd wc1) = exit_code cs"
    by (simp add: wc1_def client_winch_keeps note_winch_keeps)
  have e2: "exit_code (snd wc2) = exit_code cs"
    using e1 client_stdin_exit_code[of nm sock "fst wc1" "snd wc1"] by (simp add: wc2_def)
  define r3 where "r3 = (if cl_running (snd wc2) \<and> ce_sock_in ev
                          then client_sock sock ev wc2 else (False, wc2))"
  have e3: "cl_running (snd (snd r3)) \<longrightarrow> exit_code (snd (snd r3)) = exit_code cs"
    using e2 client_sock_exit_code[of sock ev "fst wc2" "snd wc2"] by (simp add: r3_def)
  have it: "client_iter nm sock ev (w, cs) =
      (False, if \<not> fst r3 \<and> ce_sock_hup ev
              then (fst (snd r3), (snd (snd r3))\<lparr>cl_running := False\<rparr>) else snd r3)"
    using PollOk by (simp add: client_iter_def r3_def wc2_def wc1_def split_beta Let_def)
  show ?thesis
    unfolding it using e3 by simp
qed

lemma client_loop_stopped:
  "\<not> cl_running (snd wc) \<Longrightarrow> client_loop nm sock evs wc = (True, wc)"
  by (cases evs) simp_all

lemma client_loop_pending:
  "client_loop nm sock evs wc = (False, wc') \<Longrightarrow>
     cl_running (snd wc') \<and> exit_code (snd wc') = exit_code (snd wc)"
proof (induction evs arbitrary: wc)
  case Nil
  then show ?case by auto
next
  case (Cons ev evs)
  have run: "cl_running (snd wc)"
    using Cons.prems by (cases "cl_running (snd wc)") simp_all
  obtain brk wc1 where it: "client_iter nm sock ev wc = (brk, wc1)"
    by (cases "client_iter nm sock ev wc") auto
  have nb: "\<not> brk" using Cons.prems run it by (cases brk) simp_all
  have rest: "client_loop nm sock evs wc1 = (False, wc')"
    using Cons.prems run it nb by simp
  have r1: "cl_running (snd wc1)"
    using rest client_loop_stopped[of wc1 nm sock evs] by (cases "cl_running (snd wc1)") simp_all
  have "exit_code (snd wc1) = exit_code (snd wc)"
    using client_iter_exit_code[of nm sock ev "fst wc" "snd wc"] it r1 by simp
  with Cons.IH[OF rest] show ?case by simp
qed

lemma client_loop_append:
  "client_loop nm sock pre wc = (False, wc') \<Longrightarrow>
     client_loop nm sock (pre @ evs) wc = client_loop nm sock evs wc'"
proof (induction pre arbitrary: wc)
  case Nil
  then show ?case by auto
next
  case (Cons ev pre)
  have run: "cl_running (snd wc)"
    using Cons.prems by (cases "cl_running (snd wc)") simp_all
  obtain brk wc1 where it: "client_iter nm sock ev wc = (brk, wc1)"
    by (cases "client_iter nm sock ev wc") auto
  have nb: "\<not> brk" using Cons.prems run it by (cases brk) simp_all
  have rest: "client_loop nm sock pre wc1 = (False, wc')"
    using Cons.prems run it nb by simp
  show ?case
    using Cons.IH[OF rest] run it nb by simp
qed

lemma client_loop_last_pass:
  assumes "cl_running cs" and "client_iter nm sock ev (w, cs) = (False, w', cs')"
    and "\<not> cl_running cs'"
  shows "client_loop nm sock (ev # post) (w, cs) = (True, w', cs')"
  using assms client_loop_stopped[of "(w', cs')" nm sock post] by simp

lemma term_raw_keeps:
  "cl_running (snd (term_raw a b (w, cs))) = cl_running cs"
  "exit_code (snd (term_raw a b (w, cs))) = exit_code cs"
  by (simp_all add: term_raw_def)

lemma attach_setup_init:
  assumes "attach_setup e w nm = Inr (sock, w0, cs0)"
  shows "cl_running cs0 \<and> exit_code cs0 = 0"
proof -
  obtain s2 w2 where c: "connect_to_session e (emit w (SignalIgnore SIGPIPE)) nm = (s2, w2)"
    by force
  obtain cols rows where p: "(case ae_winsize e of None \<Rightarrow> (80, 24) | Some p \<Rightarrow> p) = (cols, rows)"
    by force
  obtain ok w3 where s: "send_msg_fd w2 s2 MSG_HELLO (winsize_bytes cols rows) 4 = (ok, w3)"
    by force
  have "cs0 = snd (term_raw (ae_isatty e) (ae_tcgetattr_ok e) (emit w3 Atexit, client_init))"
    using assms c p s
    by (simp add: attach_setup_def split_beta split: if_splits)
  then show ?thesis
    by (simp add: term_raw_keeps client_init_def)
qed

lemma cmd_attach_last_pass:
  assumes su: "attach_setup e w00 nm = Inr (sock, w0, cs0)"
    and evs: "ae_events e = pre @ ev # post"
    and pre: "client_loop nm sock pre (w0, cs0) = (False, w, cs)"
    and it: "client_iter nm sock ev (w, cs) = (False, w', cs')"
    and stop: "\<not> cl_running cs'"
  shows "cmd_attach e w00 nm =
     (Return (exit_code cs'),
      sys_close (if termios_saved cs' then emit w' (Tcsetattr False) else w') sock)"
proof -
  have run: "cl_running cs" using client_loop_pending[OF pre] by simp
  have "client_loop nm sock (ae_events e) (w0, cs0) = client_loop nm sock (ev # post) (w, cs)"
    unfolding evs by (rule client_loop_append[OF pre])
  also have "\<dots> = (True, w', cs')"
    by (rule client_loop_last_pass[OF run it stop])
  finally show ?thesis
    using su by (simp add: cmd_attach_def term_restore_eq)
qed

lemma client_iter_detach:
  assumes poll: "ce_poll ev = PollOk" and sin: "ce_stdin_in ev"
    and rd: "read_fd (fst (client_winch ev sock (w, note_winch ev cs))) 0 BUF_SIZE = (RdBytes buf, w2)"
    and key: "DETACH_KEY \<in> set buf"
  shows "\<exists>cs'. client_iter nm sock ev (w, cs) =
     (False,
      emit (if termios_saved cs
            then emit (snd (send_msg_fd w2 sock MSG_DETACH [] 0)) (Tcsetattr False)
            else snd (send_msg_fd w2 sock MSG_DETACH [] 0))
        (Stderr (crlf @ ''[detached from '' @ sq @ nm @ sq @ '']'' @ crlf)), cs') \<and>
     \<not> cl_running cs' \<and> \<not> termios_saved cs' \<and> exit_code cs' = exit_code cs"
proof -
  define wc1 where "wc1 = client_winch ev sock (w, note_winch ev cs)"
  have rd1: "read_fd (fst wc1) 0 BUF_SIZE = (RdBytes buf, w2)" using rd by (simp add: wc1_def)
  have ts: "termios_saved (snd wc1) = termios_saved cs" "exit_code (snd wc1) = exit_code cs"
    by (simp_all add: wc1_def client_winch_keeps note_winch_keeps)
  have st: "client_stdin nm sock wc1 =
     (emit (if termios_saved cs
            then emit (snd (send_msg_fd w2 sock MSG_DETACH [] 0)) (Tcsetattr False)
            else snd (send_msg_fd w2 sock MSG_DETACH [] 0))
        (Stderr (crlf @ ''[detached from '' @ sq @ nm @ sq @ '']'' @ crlf)),
      (snd wc1)\<lparr>cl_running := False, termios_saved := False\<rparr>)"
    using client_stdin_detach[OF rd1 key, of nm sock "snd wc1"] ts by simp
  show ?thesis
    using poll sin st ts
    by (simp add: client_iter_def wc1_def[symmetric] split_beta Let_def)
qed

lemma send_msg_empty_conn:
  "out (snd (send_msg c t d 0)) = out c @ fst (snd (write_all (wr c) (msg_header t 0)))"
  by (simp add: send_msg_def conn_write_all_def split_beta)

lemma detach_header: "msg_header MSG_DETACH 0 = [3, 0, 0, 0, 0]"
  by (simp add: msg_header_def MSG_DETACH_def)

lemma client_winch_open: "open_fds (fst (client_winch ev sock (w, cs))) = open_fds w"
  by (simp add: client_winch_def send_window_size_def send_msg_fd_simps split: option.splits)

lemma client_stdin_open: "open_fds (fst (client_stdin nm sock (w, cs))) = open_fds w"
proof -
  obtain r w1 where rd: "read_fd w 0 BUF_SIZE = (r, w1)" by force
  have o1: "open_fds w1 = open_fds w"
    using read_fd_simps(4)[of w 0 BUF_SIZE] rd by simp
  show ?thesis
  proof (cases r)
    case (RdBytes buf)
    with rd o1 show ?thesis
      by (simp add: client_stdin_def term_restore_eq split_beta emit_simps send_msg_fd_simps)
  qed (use rd o1 in \<open>simp_all add: client_stdin_def\<close>)
qed

lemma client_sock_open: "open_fds (fst (snd (client_sock sock ev (w, cs)))) = open_fds w"
proof -
  obtain r w1 where rc: "recv_msg_fd (ce_malloc ev) w sock = (r, w1)" by force
  have o1: "open_fds w1 = open_fds w"
    using recv_msg_fd_simps(4)[of "ce_malloc ev" w sock] rc by simp
  show ?thesis
  proof (cases r)
    case None
    with rc o1 show ?thesis by (simp add: client_sock_def)
  next
    case (Some f)
    obtain t data len where "f = (t, data, len)" by (cases f) auto
    with rc Some o1 show ?thesis by (simp add: client_sock_def write_all_fd_simps)
  qed
qed

lemma client_iter_open: "open_fds (fst (snd (client_iter nm sock ev (w, cs)))) = open_fds w"
proof (cases "ce_poll ev")
  case PollEintr
  then show ?thesis by (simp add: client_iter_def client_winch_open)
next
  case PollFail
  then show ?thesis by (simp add: client_iter_def)
next
  case PollOk
  define wc1 where "wc1 = client_winch ev sock (w, note_winch ev cs)"
  define wc2 where "wc2 = (if ce_stdin_in ev then client_stdin nm sock wc1 else wc1)"
  have o1: "open_fds (fst wc1) = open_fds w"
    by (simp add: wc1_def client_winch_open)
  have o2: "open_fds (fst wc2) = open_fds w"
    using o1 client_stdin_open[of nm sock "fst wc1" "snd wc1"] by (simp add: wc2_def)
  define r3 where "r3 = (if cl_running (snd wc2) \<and> ce_sock_in ev
                          then client_sock sock ev wc2 else (False, wc2))"
  have o3: "open_fds (fst (snd r3)) = open_fds w"
    using o2 client_sock_open[of sock ev "fst wc2" "snd wc2"] by (simp add: r3_def)
  have it: "client_iter nm sock ev (w, cs) =
      (False, if \<not> fst r3 \<and> ce_sock_hup ev
              then (fst (snd r3), (snd (snd r3))\<lparr>cl_running := False\<rparr>) else snd r3)"
    using PollOk by (simp add: client_iter_def r3_def wc2_def wc1_def split_beta Let_def)
  show ?thesis
    unfolding it using o3 by simp
qed

lemma client_loop_open:
  "client_loop nm sock evs wc = (b, wc') \<Longrightarrow> open_fds (fst wc') = open_fds (fst wc)"
proof (induction evs arbitrary: wc)
  case Nil
  then show ?case by auto
next
  case (Cons ev evs)
  show ?case
  proof (cases "cl_running (snd wc)")
    case False
    with Cons.prems show ?thesis by simp
  next
    case True
    obtain brk wc1 where it: "client_iter nm sock ev wc = (brk, wc1)"
      by (cases "client_iter nm sock ev wc") auto
    have o1: "open_fds (fst wc1) = open_fds (fst wc)"
      using client_iter_open[of nm sock ev "fst wc" "snd wc"] it by simp
    show ?thesis
    proof (cases brk)
      case True
      with Cons.prems \<open>cl_running (snd wc)\<close> it o1 show ?thesis by simp
    next
      case False
      with Cons.prems \<open>cl_running (snd wc)\<close> it
      have "client_loop nm sock evs wc1 = (b, wc')" by simp
      from Cons.IH[OF this] o1 show ?thesis by simp
    qed
  qed
qed

lemma connect_open:
  assumes "connect_to_session e w nm = (s, w')" and "0 \<le> s"
  shows "s \<in> set (open_fds w')"
proof (cases "ae_connect e")
  case None
  with assms show ?thesis
    by (simp add: connect_to_session_def Let_def split_beta split: if_splits)
next
  case (Some c)
  with assms have "sys_open w c = (s, w')"
    by (simp add: connect_to_session_def Let_def split: if_splits)
  then have "s = lowest_free (open_fds w)"
    "open_fds w' = open_fds w @ [lowest_free (open_fds w)]"
    using sys_open_simps(1,5)[of w c] by simp_all
  then show ?thesis by simp
qed

lemma term_raw_open: "open_fds (fst (term_raw a b (w, cs))) = open_fds w"
  by (simp add: term_raw_def emit_simps)

lemma attach_setup_open:
  assumes "attach_setup e w nm = Inr (sock, w0, cs0)"
  shows "sock \<in> set (open_fds w0)"
proof -
  obtain s2 w2 where c: "connect_to_session e (emit w (SignalIgnore SIGPIPE)) nm = (s2, w2)"
    by force
  obtain cols rows where p: "(case ae_winsize e of None \<Rightarrow> (80, 24) | Some p \<Rightarrow> p) = (cols, rows)"
    by force
  obtain ok w3 where s: "send_msg_fd w2 s2 MSG_HELLO (winsize_bytes cols rows) 4 = (ok, w3)"
    by force
  have o3: "open_fds w3 = open_fds w2"
    using send_msg_fd_simps(4)[of w2 s2 MSG_HELLO "winsize_bytes cols rows" 4] s by simp
  have r: "0 \<le> s2" "sock = s2"
    "w0 = emit (fst (term_raw (ae_isatty e) (ae_tcgetattr_ok e) (emit w3 Atexit, client_init)))
            (SignalHandle SIGWINCH)"
    using assms c p s
    by (simp_all add: attach_setup_def split_beta split: if_splits)
  have "open_fds w0 = open_fds w2"
    by (simp add: r(3) emit_simps term_raw_open o3)
  with connect_open[OF c r(1)] r(2) show ?thesis by simp
qed

lemma one_le_word: "1 \<le> (x :: 32 word) \<longleftrightarrow> x \<noteq> 0"
  by (simp add: word_le_nat_alt unat_gt_0 Suc_le_eq)

lemma recv_msg_stream:
  assumes cl: "rd_clean (rd p)"
      and bq: "rd_bytes (rd p) = msg_header t len @ data @ rest"
      and ln: "length data = unat len"
  shows "fst (recv_msg m p) =
           (if len = 0 \<or> (len \<le> 1048576 \<and> m) then Some (t, data, len) else None)"
proof -
  have "5 \<le> length (rd_bytes (rd p))" using bq by (simp add: length_msg_header)
  from read_all_clean[OF cl this] obtain s1 where
    r1: "read_all (rd p) 5 = (Some (msg_header t len), s1)"
    using bq by (auto simp: length_msg_header)
  consider "len = 0" | "len \<noteq> 0" "len \<le> 1048576" "m" | "len \<noteq> 0" "len \<le> 1048576" "\<not> m"
    | "1048576 < len"
    by (cases "len \<le> 1048576") (auto simp: not_le)
  then show ?thesis
  proof cases
    case 1
    with ln have "data = []" by simp
    with 1 r1 show ?thesis
      by (simp add: recv_msg_def decode_header msg_header_type)
  next
    case 2
    from recv_msg_frame[OF cl bq ln 2(2)] 2 show ?thesis by auto
  next
    case 3
    have "\<not> len > 1024 * 1024" using 3(2) by (simp add: not_less)
    with 3 r1 show ?thesis
      by (simp add: recv_msg_def decode_header msg_header_type Let_def)
  next
    case 4
    have "bqs": "rd_bytes (rd p) = msg_header t len @ (data @ rest)" using bq by simp
    have "len \<noteq> 0" using 4 by auto
    moreover have "\<not> len \<le> 1048576" using 4 by (simp add: not_le)
    ultimately show ?thesis
      using recv_msg_too_long[OF bqs 4, of m] by simp
  qed
qed

lemma recv_msg_fd_open:
  "map_of (conns w) fd = Some c \<Longrightarrow>
     recv_msg_fd m w fd = (fst (recv_msg m c), set_conn w fd (snd (recv_msg m c)))"
  by (simp add: recv_msg_fd_def split_beta)

lemma client_sock_refused:
  assumes "recv_msg_fd (ce_malloc ev) w sock = (None, w1)"
  shows "client_sock sock ev (w, cs) = (True, w1, cs\<lparr>cl_running := False\<rparr>)"
  using assms by (simp add: client_sock_def)

lemma att_big_run: "fst (cmd_attach (att_big_env p) att_world ''s'') = Return 0"
  by code_simp

text \<open>
  Claim C8. When a chunk that the attach client reads from standard input contains the
  detach key, at any position, the client sends the empty \<^verbatim>\<open>DETACH\<close> frame and no other
  frame: the socket, which is open, gets the five bytes 3, 0, 0, 0, 0 of that frame as far
  as \<^verbatim>\<open>write_all\<close> can write them, all five when the send succeeds, and nothing else, so no
  byte of the chunk; no other descriptor is written to. The client restores the terminal
  if it had saved its settings, prints the notice on standard error, closes the socket
  and returns 0.
\<close>

theorem detach_key_aborts_chunk:
  assumes su: "attach_setup e w00 nm = Inr (sock, w0, cs0)"
    and evs: "ae_events e = pre @ ev # post"
    and pre: "client_loop nm sock pre (w0, cs0) = (False, w, cs)"
    and poll: "ce_poll ev = PollOk" and sin: "ce_stdin_in ev"
    and rd: "read_fd (fst (client_winch ev sock (w, note_winch ev cs))) 0 BUF_SIZE
               = (RdBytes buf, w2)"
    and key: "DETACH_KEY \<in> set buf"
  shows "fst (cmd_attach e w00 nm) = Return 0 \<and>
         trace (snd (cmd_attach e w00 nm)) =
           trace w2 @ [SendMsg sock MSG_DETACH [] (fd_send_ok w2 MSG_DETACH [] 0 sock)]
             @ (if termios_saved cs then [Tcsetattr False] else [])
             @ [Stderr (crlf @ ''[detached from '' @ sq @ nm @ sq @ '']'' @ crlf), Close sock] \<and>
         (\<exists>cn. map_of (conns w2) sock = Some cn \<and>
               map_of (conns (fst (snd (client_iter nm sock ev (w, cs))))) sock =
                 Some (snd (send_msg cn MSG_DETACH [] 0)) \<and>
               fd_out (fst (snd (client_iter nm sock ev (w, cs)))) sock =
                 out cn @ fst (snd (write_all (wr cn) [3, 0, 0, 0, 0]))) \<and>
         (fd_send_ok w2 MSG_DETACH [] 0 sock \<longrightarrow>
            fd_out (fst (snd (client_iter nm sock ev (w, cs)))) sock =
              fd_out w2 sock @ [3, 0, 0, 0, 0]) \<and>
         (\<forall>fd. fd \<noteq> sock \<longrightarrow>
            map_of (conns (fst (snd (client_iter nm sock ev (w, cs))))) fd =
              map_of (conns w2) fd) \<and>
         (\<exists>k. fd_out (fst (snd (client_iter nm sock ev (w, cs)))) sock =
                fd_out w2 sock @ take k (msg_header MSG_DETACH 0))"
proof -
  define ws where "ws = snd (send_msg_fd w2 sock MSG_DETACH [] 0)"
  define w' where "w' = emit (if termios_saved cs then emit ws (Tcsetattr False) else ws)
                          (Stderr (crlf @ ''[detached from '' @ sq @ nm @ sq @ '']'' @ crlf))"
  from client_iter_detach[OF poll sin rd key, of nm] obtain cs' where
    it: "client_iter nm sock ev (w, cs) = (False, w', cs')"
    and stop: "\<not> cl_running cs'" and ns: "\<not> termios_saved cs'"
    and ex: "exit_code cs' = exit_code cs"
    unfolding w'_def ws_def by blast
  have e0: "exit_code cs = 0"
    using client_loop_pending[OF pre] attach_setup_init[OF su] by simp
  have res: "cmd_attach e w00 nm = (Return 0, sys_close w' sock)"
    using cmd_attach_last_pass[OF su evs pre it stop] ns ex e0 by simp
  have tr: "trace ws = trace w2 @ [SendMsg sock MSG_DETACH [] (fd_send_ok w2 MSG_DETACH [] 0 sock)]"
    by (simp add: ws_def send_msg_fd_simps)
  have t2: "trace (sys_close w' sock) =
           trace w2 @ [SendMsg sock MSG_DETACH [] (fd_send_ok w2 MSG_DETACH [] 0 sock)]
             @ (if termios_saved cs then [Tcsetattr False] else [])
             @ [Stderr (crlf @ ''[detached from '' @ sq @ nm @ sq @ '']'' @ crlf), Close sock]"
    by (simp add: w'_def sys_close_simps emit_simps tr)
  have W: "fst (snd (client_iter nm sock ev (w, cs))) = w'" by (simp add: it)
  have cw: "conns w' = conns ws" by (simp add: w'_def emit_simps)
  have "open_fds w2 = open_fds (fst (client_winch ev sock (w, note_winch ev cs)))"
    using read_fd_simps(4)[of "fst (client_winch ev sock (w, note_winch ev cs))" 0 BUF_SIZE] rd
    by simp
  also have "\<dots> = open_fds w" by (rule client_winch_open)
  also have "\<dots> = open_fds w0" using client_loop_open[OF pre] by simp
  finally have "sock \<in> set (open_fds w2)" using attach_setup_open[OF su] by simp
  then obtain cn where cn: "map_of (conns w2) sock = Some cn"
    using map_of_open[of w2 sock] by (cases "map_of (conns w2) sock") auto
  have m1: "map_of (conns w') sock = Some (snd (send_msg cn MSG_DETACH [] 0))"
    unfolding cw ws_def by (simp add: map_of_send_msg_fd cn)
  have o1: "fd_out w' sock = out cn @ fst (snd (write_all (wr cn) [3, 0, 0, 0, 0]))"
    using m1 send_msg_empty_conn[of cn MSG_DETACH "[]"] by (simp add: fd_out_def detach_header)
  have c3: "\<exists>cn. map_of (conns w2) sock = Some cn \<and>
               map_of (conns w') sock = Some (snd (send_msg cn MSG_DETACH [] 0)) \<and>
               fd_out w' sock = out cn @ fst (snd (write_all (wr cn) [3, 0, 0, 0, 0]))"
    using cn m1 o1 by (intro exI[of _ cn]) simp
  have c4: "fd_send_ok w2 MSG_DETACH [] 0 sock \<longrightarrow> fd_out w' sock = fd_out w2 sock @ [3, 0, 0, 0, 0]"
  proof
    assume "fd_send_ok w2 MSG_DETACH [] 0 sock"
    from fd_send_ok_out[OF this] cn
    have "out (snd (send_msg cn MSG_DETACH [] 0)) = out cn @ msg_header MSG_DETACH 0"
      by simp
    with m1 cn show "fd_out w' sock = fd_out w2 sock @ [3, 0, 0, 0, 0]"
      by (simp add: fd_out_def detach_header)
  qed
  have c5: "\<forall>fd. fd \<noteq> sock \<longrightarrow> map_of (conns w') fd = map_of (conns w2) fd"
    unfolding cw ws_def by (simp add: map_of_send_msg_fd)
  obtain k where k: "fd_out ws sock = fd_out w2 sock @ take k (msg_header MSG_DETACH 0)"
    unfolding ws_def using fd_out_send_empty by blast
  have "fd_out w' sock = fd_out ws sock"
    by (simp add: w'_def fd_out_emit)
  with k have c6: "\<exists>k. fd_out w' sock = fd_out w2 sock @ take k (msg_header MSG_DETACH 0)"
    by (intro exI[of _ k]) simp
  have c1: "fst (cmd_attach e w00 nm) = Return 0" by (simp add: res)
  have c2: "trace (snd (cmd_attach e w00 nm)) =
           trace w2 @ [SendMsg sock MSG_DETACH [] (fd_send_ok w2 MSG_DETACH [] 0 sock)]
             @ (if termios_saved cs then [Tcsetattr False] else [])
             @ [Stderr (crlf @ ''[detached from '' @ sq @ nm @ sq @ '']'' @ crlf), Close sock]"
    unfolding res using t2 by simp
  show ?thesis
    unfolding W by (intro conjI c1 c2 c3 c4 c5 c6)
qed

theorem detach_key_aborts_chunk_witness:
  "attach_setup (att_env True) att_world ''s'' = Inr (3, att_w0, att_cs0) \<and>
   read_fd att_w0 0 BUF_SIZE = (RdBytes [97, 28, 98], att_w_read) \<and>
   DETACH_KEY \<in> set [97, 28, 98] \<and>
   fd_send_ok att_w_read MSG_DETACH [] 0 3 \<and>
   fst (cmd_attach (att_env True) att_world ''s'') = Return 0 \<and>
   trace (snd (cmd_attach (att_env True) att_world ''s'')) =
     att_trace0 @ [SendMsg 3 MSG_DETACH [] True, Tcsetattr False,
       Stderr (crlf @ ''[detached from '' @ sq @ ''s'' @ sq @ '']'' @ crlf), Close 3] \<and>
   fd_out (fst (snd (client_iter ''s'' 3 (att_ev True) (att_w0, att_cs0)))) 3 =
     [5, 0, 0, 0, 4, 0, 80, 0, 24, 3, 0, 0, 0, 0] \<and>
   map_of (conns (fst (snd (client_iter ''s'' 3 (att_ev True) (att_w0, att_cs0))))) 1 =
     Some no_conn"
proof -
  have su: "attach_setup (att_env True) att_world ''s'' = Inr (3, att_w0, att_cs0)"
    by code_simp
  have evs: "ae_events (att_env True) = [] @ att_ev True # []"
    by (simp add: att_env_def)
  have pre: "client_loop ''s'' 3 [] (att_w0, att_cs0) = (False, att_w0, att_cs0)"
    by (simp add: att_cs0_def)
  have poll: "ce_poll (att_ev True) = PollOk" and sin: "ce_stdin_in (att_ev True)"
    by (simp_all add: att_ev_def)
  have wn: "client_winch (att_ev True) 3 (att_w0, note_winch (att_ev True) att_cs0)
              = (att_w0, att_cs0)"
    by (simp add: client_winch_def note_winch_def att_ev_def att_cs0_def)
  have rd0: "read_fd att_w0 0 BUF_SIZE = (RdBytes [97, 28, 98], att_w_read)"
    by code_simp
  have rd: "read_fd (fst (client_winch (att_ev True) 3 (att_w0, note_winch (att_ev True) att_cs0)))
              0 BUF_SIZE = (RdBytes [97, 28, 98], att_w_read)"
    unfolding wn using rd0 by simp
  have key: "DETACH_KEY \<in> set [97, 28, 98]"
    by (simp add: DETACH_KEY_def)
  have ok: "fd_send_ok att_w_read MSG_DETACH [] 0 3"
    by code_simp
  have ts: "termios_saved att_cs0" "trace att_w_read = att_trace0"
    by (simp_all add: att_cs0_def att_w_read_def)
  have o0: "fd_out att_w_read 3 = [5, 0, 0, 0, 4, 0, 80, 0, 24]"
    "map_of (conns att_w_read) 1 = Some no_conn"
    by (simp_all add: fd_out_def att_w_read_def)
  note th = detach_key_aborts_chunk[OF su evs pre poll sin rd key]
  have a: "fst (cmd_attach (att_env True) att_world ''s'') = Return 0"
    using th by (rule conjunct1)
  have b: "trace (snd (cmd_attach (att_env True) att_world ''s'')) =
     att_trace0 @ [SendMsg 3 MSG_DETACH [] True, Tcsetattr False,
       Stderr (crlf @ ''[detached from '' @ sq @ ''s'' @ sq @ '']'' @ crlf), Close 3]"
    using th[THEN conjunct2, THEN conjunct1] ok ts by simp
  have c: "fd_out (fst (snd (client_iter ''s'' 3 (att_ev True) (att_w0, att_cs0)))) 3 =
     [5, 0, 0, 0, 4, 0, 80, 0, 24, 3, 0, 0, 0, 0]"
    using th[THEN conjunct2, THEN conjunct2, THEN conjunct2, THEN conjunct1] ok o0 by simp
  have d: "map_of (conns (fst (snd (client_iter ''s'' 3 (att_ev True) (att_w0, att_cs0))))) 1 =
     Some no_conn"
    using th[THEN conjunct2, THEN conjunct2, THEN conjunct2, THEN conjunct2, THEN conjunct1,
             rule_format, of 1] o0 by simp
  show ?thesis
    by (intro conjI su rd0 key ok a b c d)
qed

text \<open>
  Claim C9, corrected. The claim says that the attach client accepts an \<^verbatim>\<open>EXIT\<close> frame of any
  payload length. It does so up to 1 MiB (1048576 bytes), the limit of \<^verbatim>\<open>recv_msg\<close>. When the
  bytes of an \<^verbatim>\<open>EXIT\<close> frame arrive on the socket, the loop ends in every case and
  \<^verbatim>\<open>cmd_attach\<close> restores the terminal, closes the socket and returns. It returns the first
  byte of the payload, the bytes after it being ignored, when the declared length is at
  least 1 and at most 1048576 and \<^verbatim>\<open>malloc\<close> finds memory. It returns 0, the value the exit
  code had before, when the payload is empty, and also when the declared length is above
  1048576 or \<^verbatim>\<open>malloc\<close> fails: \<^verbatim>\<open>recv_msg\<close> then returns false and the first byte is not
  recorded.
\<close>

theorem exit_frame_up_to_limit:
  assumes su: "attach_setup e w00 nm = Inr (sock, w0, cs0)"
    and evs: "ae_events e = pre @ ev # post"
    and pre: "client_loop nm sock pre (w0, cs0) = (False, w, cs)"
    and poll: "ce_poll ev = PollOk" and sin: "ce_sock_in ev"
    and st: "(if ce_stdin_in ev
              then client_stdin nm sock (client_winch ev sock (w, note_winch ev cs))
              else client_winch ev sock (w, note_winch ev cs)) = (w2, cs2)"
    and run: "cl_running cs2"
    and c: "map_of (conns w2) sock = Some c"
    and cl: "rd_clean (rd c)"
    and bq: "rd_bytes (rd c) = msg_header MSG_EXIT len @ data @ rest"
    and ln: "length data = unat len"
  shows "fst (cmd_attach e w00 nm) =
           Return (if 1 \<le> len \<and> len \<le> 1048576 \<and> ce_malloc ev then uint (data ! 0) else 0) \<and>
         trace (snd (cmd_attach e w00 nm)) =
           trace w2 @ (if termios_saved cs2 then [Tcsetattr False] else []) @ [Close sock]"
proof -
  define wc1 where "wc1 = client_winch ev sock (w, note_winch ev cs)"
  have e1: "exit_code (snd wc1) = exit_code cs"
    by (simp add: wc1_def client_winch_keeps note_winch_keeps)
  have "exit_code cs2 = exit_code cs"
    using st e1 client_stdin_exit_code[of nm sock "fst wc1" "snd wc1"]
    by (cases "ce_stdin_in ev") (simp_all add: wc1_def[symmetric])
  moreover have "exit_code cs = 0"
    using client_loop_pending[OF pre] attach_setup_init[OF su] by simp
  ultimately have e2: "exit_code cs2 = 0" by simp
  define w3 where "w3 = set_conn w2 sock (snd (recv_msg (ce_malloc ev) c))"
  have t3: "trace w3 = trace w2" by (simp add: w3_def set_conn_simps)
  have rv: "recv_msg_fd (ce_malloc ev) w2 sock =
      (if len = 0 \<or> (len \<le> 1048576 \<and> ce_malloc ev) then Some (MSG_EXIT, data, len) else None, w3)"
    using recv_msg_fd_open[OF c, of "ce_malloc ev"] recv_msg_stream[OF cl bq ln, of "ce_malloc ev"]
    by (simp add: w3_def)
  have "\<exists>cs'. client_iter nm sock ev (w, cs) = (False, w3, cs') \<and> \<not> cl_running cs' \<and>
          termios_saved cs' = termios_saved cs2 \<and>
          exit_code cs' = (if 1 \<le> len \<and> len \<le> 1048576 \<and> ce_malloc ev then uint (data ! 0) else 0)"
  proof (cases "len = 0 \<or> (len \<le> 1048576 \<and> ce_malloc ev)")
    case True
    define cs' where
      "cs' = (if len \<ge> 1 then cs2\<lparr>exit_code := uint (data ! 0)\<rparr> else cs2)\<lparr>cl_running := False\<rparr>"
    have rc: "recv_msg_fd (ce_malloc ev) w2 sock = (Some (MSG_EXIT, data, len), w3)"
      using rv True by simp
    have sk: "client_sock sock ev (w2, cs2) = (False, w3, cs')"
      unfolding cs'_def by (rule client_sock_exit[OF rc])
    have it: "client_iter nm sock ev (w, cs) = (False, w3, cs')"
      using poll sin st run sk
      by (cases "ce_sock_hup ev") (simp_all add: client_iter_def Let_def cs'_def)
    have ec: "exit_code cs' =
        (if 1 \<le> len \<and> len \<le> 1048576 \<and> ce_malloc ev then uint (data ! 0) else 0)"
      using e2 True by (auto simp: cs'_def one_le_word)
    show ?thesis
      using it ec by (intro exI[of _ cs']) (simp add: cs'_def)
  next
    case False
    have rc: "recv_msg_fd (ce_malloc ev) w2 sock = (None, w3)"
      using rv False by simp
    have sk: "client_sock sock ev (w2, cs2) = (True, w3, cs2\<lparr>cl_running := False\<rparr>)"
      by (rule client_sock_refused[OF rc])
    have it: "client_iter nm sock ev (w, cs) = (False, w3, cs2\<lparr>cl_running := False\<rparr>)"
      using poll sin st run sk by (simp add: client_iter_def Let_def)
    have ec: "exit_code (cs2\<lparr>cl_running := False\<rparr>) =
        (if 1 \<le> len \<and> len \<le> 1048576 \<and> ce_malloc ev then uint (data ! 0) else 0)"
      using e2 False by (auto simp: one_le_word)
    show ?thesis
      using it ec by (intro exI[of _ "cs2\<lparr>cl_running := False\<rparr>"]) simp
  qed
  then obtain cs' where it: "client_iter nm sock ev (w, cs) = (False, w3, cs')"
    and stop: "\<not> cl_running cs'" and ts: "termios_saved cs' = termios_saved cs2"
    and ec: "exit_code cs' =
        (if 1 \<le> len \<and> len \<le> 1048576 \<and> ce_malloc ev then uint (data ! 0) else 0)"
    by (elim exE conjE)
  have res: "cmd_attach e w00 nm =
     (Return (if 1 \<le> len \<and> len \<le> 1048576 \<and> ce_malloc ev then uint (data ! 0) else 0),
      sys_close (if termios_saved cs2 then emit w3 (Tcsetattr False) else w3) sock)"
    using cmd_attach_last_pass[OF su evs pre it stop] ec ts by simp
  show ?thesis
    unfolding res by (simp add: sys_close_simps emit_simps t3)
qed

theorem exit_frame_up_to_limit_witness:
  "attach_setup (att_env False) att_world ''s'' = Inr (3, att_w0, att_cs0) \<and>
   map_of (conns att_w0) 3 =
     Some \<lparr>rd = [Chunk [4, 0, 0, 0, 3, 42, 1, 2]], wr = [Wrote 5],
           out = [5, 0, 0, 0, 4, 0, 80, 0, 24]\<rparr> \<and>
   [4, 0, 0, 0, 3, 42, 1, 2] = msg_header MSG_EXIT 3 @ [42, 1, 2] @ [] \<and>
   fst (cmd_attach (att_env False) att_world ''s'') = Return 42 \<and>
   trace (snd (cmd_attach (att_env False) att_world ''s'')) =
     att_trace0 @ [Tcsetattr False, Close 3]"
proof -
  define c :: conn where "c = \<lparr>rd = [Chunk [4, 0, 0, 0, 3, 42, 1, 2]], wr = [Wrote 5],
           out = [5, 0, 0, 0, 4, 0, 80, 0, 24]\<rparr>"
  have su: "attach_setup (att_env False) att_world ''s'' = Inr (3, att_w0, att_cs0)"
    by code_simp
  have evs: "ae_events (att_env False) = [] @ att_ev False # []"
    by (simp add: att_env_def)
  have pre: "client_loop ''s'' 3 [] (att_w0, att_cs0) = (False, att_w0, att_cs0)"
    by (simp add: att_cs0_def)
  have poll: "ce_poll (att_ev False) = PollOk" and sin: "ce_sock_in (att_ev False)"
    and ma: "ce_malloc (att_ev False)"
    by (simp_all add: att_ev_def)
  have st: "(if ce_stdin_in (att_ev False)
             then client_stdin ''s'' 3 (client_winch (att_ev False) 3
                    (att_w0, note_winch (att_ev False) att_cs0))
             else client_winch (att_ev False) 3 (att_w0, note_winch (att_ev False) att_cs0))
            = (att_w0, att_cs0)"
    by (simp add: client_winch_def note_winch_def att_ev_def att_cs0_def)
  have run: "cl_running att_cs0" and ts: "termios_saved att_cs0"
    by (simp_all add: att_cs0_def)
  have cc: "map_of (conns att_w0) 3 = Some c"
    by (simp add: att_w0_def c_def)
  have cl: "rd_clean (rd c)" by (simp add: c_def)
  have hd: "[4, 0, 0, 0, 3, 42, 1, 2] = msg_header MSG_EXIT 3 @ [42, 1, 2] @ []"
    by code_simp
  have bq: "rd_bytes (rd c) = msg_header MSG_EXIT 3 @ [42, 1, 2] @ []"
    using hd by (simp add: c_def)
  have ln: "length [42, 1, 2 :: byte] = unat (3 :: 32 word)" by simp
  have tr: "trace att_w0 = att_trace0"
    by (simp add: att_w0_def)
  note th = exit_frame_up_to_limit[OF su evs pre poll sin st run cc cl bq ln]
  have a: "fst (cmd_attach (att_env False) att_world ''s'') = Return 42"
    using th[THEN conjunct1] ma by simp
  have b: "trace (snd (cmd_attach (att_env False) att_world ''s'')) =
     att_trace0 @ [Tcsetattr False, Close 3]"
    using th[THEN conjunct2] ts tr by simp
  show ?thesis
    using su cc hd a b unfolding c_def by (intro conjI)
qed

text \<open>
  The run that refutes the claim as it was made: the daemon's stream holds an \<^verbatim>\<open>EXIT\<close> frame
  that declares 1048577 bytes and whose payload begins with 42; the client returns 0.
\<close>

theorem exit_frame_over_limit:
  "rd_clean (rd (att_big_conn att_big_payload)) \<and>
   rd_bytes (rd (att_big_conn att_big_payload)) = msg_header MSG_EXIT 1048577 @ att_big_payload \<and>
   length att_big_payload = unat (1048577 :: 32 word) \<and>
   att_big_payload ! 0 = 42 \<and>
   ae_connect (att_big_env att_big_payload) = Some (att_big_conn att_big_payload) \<and>
   fst (cmd_attach (att_big_env att_big_payload) att_world ''s'') = Return 0"
proof -
  have ne: "att_big_payload \<noteq> []" and h: "att_big_payload ! 0 = 42"
    and ln: "length att_big_payload = unat (1048577 :: 32 word)"
    by (simp_all add: att_big_payload_def)
  have hn: "msg_header MSG_EXIT 1048577 \<noteq> []" by (simp add: msg_header_def)
  have cl: "rd_clean (rd (att_big_conn att_big_payload))"
    using ne hn by (simp add: att_big_conn_def)
  have bq: "rd_bytes (rd (att_big_conn att_big_payload)) =
              msg_header MSG_EXIT 1048577 @ att_big_payload"
    by (simp add: att_big_conn_def)
  have en: "ae_connect (att_big_env att_big_payload) = Some (att_big_conn att_big_payload)"
    by (simp add: att_big_env_def)
  show ?thesis
    by (intro conjI cl bq ln h en att_big_run)
qed

end
